theory Spec2Isabelle
  imports Complex_Main "HOL-Library.AList"
begin

section \<open>Values read from the dialogue catalog\<close>

text \<open>
  \<^verbatim>\<open>json.load\<close> yields Python values: \<^verbatim>\<open>None\<close>, booleans, unbounded integers,
  floats (Python also accepts the literals NaN and Infinity), strings, lists and dicts.
  A dict keeps its keys in insertion order and holds each key once, so a JSON object is
  an association list; storing under a key that is present replaces the value where it
  stands, storing under a new key appends it (\<open>AList.update\<close>).
  A string is the list of the bytes of its UTF-8 encoding: the script only tests
  strings for emptiness and equality and copies them.
\<close>

datatype pyfloat = FFinite rat | FInf bool | FNaN

datatype json =
    JNull
  | JBool bool
  | JInt int
  | JFloat pyfloat
  | JStr string
  | JArr "json list"
  | JObj "(string \<times> json) list"

datatype py_error =
    KeyError string
  | TypeError
  | OSError string
  | JSONDecodeError

text \<open>Truth value of a Python object, as \<^verbatim>\<open>if x and ...\<close> tests it.\<close>

fun truthy :: "json \<Rightarrow> bool" where
  "truthy JNull = False"
| "truthy (JBool b) = b"
| "truthy (JInt n) = (n \<noteq> 0)"
| "truthy (JFloat f) = (f \<noteq> FFinite 0)"
| "truthy (JStr s) = (s \<noteq> [])"
| "truthy (JArr xs) = (xs \<noteq> [])"
| "truthy (JObj kvs) = (kvs \<noteq> [])"

text \<open>
  \<^verbatim>\<open>x[key]\<close> with a string key: a dict looks the key up and raises KeyError when it
  is absent; every other JSON value raises TypeError (a string or list wants an integer
  index, the others are not subscriptable).
\<close>

fun py_getitem :: "json \<Rightarrow> string \<Rightarrow> py_error + json" where
  "py_getitem (JObj kvs) k = (case map_of kvs k of None \<Rightarrow> Inl (KeyError k) | Some v \<Rightarrow> Inr v)"
| "py_getitem _ k = Inl TypeError"

text \<open>\<^verbatim>\<open>d.get(key, default)\<close> on a dict.\<close>

definition dict_get :: "(string \<times> json) list \<Rightarrow> string \<Rightarrow> json \<Rightarrow> json" where
  "dict_get kvs k dflt = (case map_of kvs k of None \<Rightarrow> dflt | Some v \<Rightarrow> v)"

text \<open>
  \<^verbatim>\<open>x[:50]\<close>: strings and lists can be sliced, the other values raise (a dict
  raises TypeError up to Python 3.11 and KeyError from 3.12 on; the model has one
  error for both). The slice itself is only printed.
\<close>

fun py_slice50 :: "json \<Rightarrow> py_error + json" where
  "py_slice50 (JStr s) = Inr (JStr (take 50 s))"
| "py_slice50 (JArr xs) = Inr (JArr (take 50 xs))"
| "py_slice50 _ = Inl TypeError"

text \<open>\<^verbatim>\<open>len(x)\<close>.\<close>

fun py_len :: "json \<Rightarrow> py_error + nat" where
  "py_len (JStr s) = Inr (length s)"
| "py_len (JArr xs) = Inr (length xs)"
| "py_len (JObj kvs) = Inr (length kvs)"
| "py_len _ = Inl TypeError"

section \<open>Paths and the file system\<close>

text \<open>
  A \<^verbatim>\<open>pathlib\<close> path (POSIX flavour) is its anchor (absolute or not) and its
  components. \<^verbatim>\<open>p.parent\<close> drops the last component and is \<^verbatim>\<open>p\<close> itself once
  no component is left; \<^verbatim>\<open>p / name\<close> appends a component; \<^verbatim>\<open>str(p)\<close> joins them
  with slashes.
\<close>

datatype path = Path bool "string list"

fun parent :: "path \<Rightarrow> path" where
  "parent (Path a cs) = Path a (butlast cs)"

fun child :: "path \<Rightarrow> string \<Rightarrow> path" where
  "child (Path a cs) name = Path a (cs @ [name])"

fun join_parts :: "string list \<Rightarrow> string" where
  "join_parts [] = []"
| "join_parts [c] = c"
| "join_parts (c # d # cs) = c @ ''/'' @ join_parts (d # cs)"

fun str_path :: "path \<Rightarrow> string" where
  "str_path (Path True cs) = ''/'' @ join_parts cs"
| "str_path (Path False cs) = (if cs = [] then ''.'' else join_parts cs)"

text \<open>
  One item of a directory listing (\<^verbatim>\<open>iterdir\<close>): its name, whether it is a
  directory, and the names of its own children in the order the listing yields them.
\<close>

record dir_item =
  item_name :: string
  item_is_dir :: bool
  item_files :: "string list"

text \<open>
  What the script sees of its environment: the location of the script file, which string
  paths exist (\<^verbatim>\<open>os.path.exists\<close> and \<^verbatim>\<open>Path.exists\<close>), what
  \<^verbatim>\<open>os.path.exists\<close> does on an integer (a file descriptor), the result of opening
  a file and parsing it as JSON, the listing of a directory, and whether writing the
  JSON text of a value to a path fails.
\<close>

record filesystem =
  script_file :: path
  path_exists :: "string \<Rightarrow> bool"
  fd_exists :: "int \<Rightarrow> py_error + bool"
  read_json :: "string \<Rightarrow> py_error + json"
  iterdir :: "string \<Rightarrow> py_error + dir_item list"
  write_json :: "string \<Rightarrow> json \<Rightarrow> py_error option"

text \<open>
  \<^verbatim>\<open>os.path.exists(x)\<close> on a value of the catalog: a string is a path, an integer
  (and a boolean, which is an integer) a file descriptor, anything else a TypeError.
\<close>

fun os_path_exists :: "filesystem \<Rightarrow> json \<Rightarrow> py_error + bool" where
  "os_path_exists fs (JStr s) = Inr (path_exists fs s)"
| "os_path_exists fs (JInt n) = fd_exists fs n"
| "os_path_exists fs (JBool b) = fd_exists fs (if b then 1 else 0)"
| "os_path_exists fs _ = Inl TypeError"

section \<open>find_repo_root\<close>

text \<open>
  The loop of \<^verbatim>\<open>find_repo_root\<close>: while \<^verbatim>\<open>current.parent != current\<close>, return
  \<^verbatim>\<open>current\<close> when it holds a marker, else go up. \<open>None\<close> is the loop running out.
\<close>

definition has_marker :: "filesystem \<Rightarrow> path \<Rightarrow> bool" where
  "has_marker fs current \<longleftrightarrow>
     path_exists fs (str_path (child current ''GameWatcher.sln''))
     \<or> path_exists fs (str_path (child current ''.git''))"

function walk_up :: "filesystem \<Rightarrow> path \<Rightarrow> path option" where
  "walk_up fs current =
     (if parent current \<noteq> current
      then (if has_marker fs current then Some current else walk_up fs (parent current))
      else None)"
  by pat_completeness auto
termination
proof (relation "measure (\<lambda>(fs, p). case p of Path a cs \<Rightarrow> length cs)")
  show "wf (measure (\<lambda>(fs, p). case p of Path a cs \<Rightarrow> length cs))"
    by simp
next
  fix fs :: filesystem and current :: path
  assume "parent current \<noteq> current"
  then show "((fs, parent current), (fs, current))
      \<in> measure (\<lambda>(fs, p). case p of Path a cs \<Rightarrow> length cs)"
    by (cases current) (auto simp: butlast_conv_take)
qed

definition find_repo_root :: "filesystem \<Rightarrow> path" where
  "find_repo_root fs =
     (case walk_up fs (parent (parent (script_file fs))) of
        Some current \<Rightarrow> current
      | None \<Rightarrow> parent (parent (script_file fs)))"

section \<open>The audio inventory\<close>

text \<open>
  \<^verbatim>\<open>speaker_dir.glob("*.mp3")\<close>: the children whose name ends in \<^verbatim>\<open>.mp3\<close>, in
  listing order.
\<close>

definition ends_with :: "string \<Rightarrow> string \<Rightarrow> bool" where
  "ends_with suf s \<longleftrightarrow> length suf \<le> length s \<and> drop (length s - length suf) s = suf"

definition glob_mp3 :: "path \<Rightarrow> string list \<Rightarrow> path list" where
  "glob_mp3 speaker_dir names = map (child speaker_dir) (filter (ends_with ''.mp3'') names)"

type_synonym inventory = "string \<rightharpoonup> path list"

text \<open>One iteration of the loop over \<^verbatim>\<open>voices_dir.iterdir()\<close>, and the loop.\<close>

definition scan_item :: "path \<Rightarrow> inventory \<Rightarrow> dir_item \<Rightarrow> inventory" where
  "scan_item voices_dir by_speaker it =
     (if item_is_dir it \<and> item_name it \<noteq> ''previews''
      then (let speaker = item_name it;
                audio_files = glob_mp3 (child voices_dir speaker) (item_files it)
            in if audio_files \<noteq> [] then by_speaker(speaker \<mapsto> audio_files) else by_speaker)
      else by_speaker)"

fun scan_items :: "path \<Rightarrow> inventory \<Rightarrow> dir_item list \<Rightarrow> inventory" where
  "scan_items voices_dir by_speaker [] = by_speaker"
| "scan_items voices_dir by_speaker (it # its) = scan_items voices_dir (scan_item voices_dir by_speaker it) its"

definition scan_inventory :: "filesystem \<Rightarrow> path \<Rightarrow> py_error + inventory" where
  "scan_inventory fs voices_dir =
     (case iterdir fs (str_path voices_dir) of
        Inl e \<Rightarrow> Inl e
      | Inr its \<Rightarrow> Inr (scan_items voices_dir Map.empty its))"

section \<open>The repair loop\<close>

text \<open>
  The variables the loop over the dialogues changes: \<^verbatim>\<open>audio_files_by_speaker\<close> and
  \<^verbatim>\<open>updates_made\<close>.
\<close>

record pass_state =
  pools :: inventory
  updates_made :: nat

definition ready_label :: string where
  "ready_label = [CHR 0xE2, CHR 0x9C, CHR 0x85] @ '' Ready''"

text \<open>The four assignments to the entry (lines 72 to 75), in their order.\<close>

definition assign_audio :: "string \<Rightarrow> (string \<times> json) list \<Rightarrow> (string \<times> json) list" where
  "assign_audio new_path d =
     AList.update ''AudioStatusColor'' (JStr ''Green'')
       (AList.update ''AudioStatus'' (JStr ready_label)
         (AList.update ''HasAudio'' (JBool True)
           (AList.update ''AudioPath'' (JStr new_path) d)))"

text \<open>
  \<^verbatim>\<open>speaker in audio_files_by_speaker\<close> followed by the lookup: a list or a dict is
  unhashable (TypeError); the keys are strings, so no other value is found.
\<close>

fun lookup_speaker :: "inventory \<Rightarrow> json \<Rightarrow> py_error + (string \<times> path list) option" where
  "lookup_speaker by_speaker (JStr s) = Inr (case by_speaker s of None \<Rightarrow> None | Some files \<Rightarrow> Some (s, files))"
| "lookup_speaker by_speaker (JArr xs) = Inl TypeError"
| "lookup_speaker by_speaker (JObj kvs) = Inl TypeError"
| "lookup_speaker by_speaker _ = Inr None"

text \<open>
  The test of line 55, \<^verbatim>\<open>current_audio_path and os.path.exists(current_audio_path)\<close>:
  the second operand is only evaluated when the first is true.
\<close>

definition already_valid :: "filesystem \<Rightarrow> json \<Rightarrow> py_error + bool" where
  "already_valid fs current_audio_path =
     (if truthy current_audio_path then os_path_exists fs current_audio_path else Inr False)"

text \<open>
  The part of the loop body that assigns a file (lines 65 to 79). The two subscripts
  of the \<^verbatim>\<open>print\<close> of line 68 are evaluated before anything is changed, and raise
  when the entry has no \<^verbatim>\<open>Id\<close> or no \<^verbatim>\<open>Text\<close>, or a text that cannot be sliced.
\<close>

definition assign_first ::
  "pass_state \<Rightarrow> (string \<times> json) list \<Rightarrow> string \<Rightarrow> path list
     \<Rightarrow> py_error + (pass_state \<times> json)" where
  "assign_first st d speaker available_files =
     (let audio_file = hd available_files;
          new_path = str_path audio_file
      in case py_getitem (JObj d) ''Id'' of
           Inl e \<Rightarrow> Inl e
         | Inr ident \<Rightarrow>
        (case py_getitem (JObj d) ''Text'' of
           Inl e \<Rightarrow> Inl e
         | Inr txt \<Rightarrow>
        (case py_slice50 txt of
           Inl e \<Rightarrow> Inl e
         | Inr shown \<Rightarrow>
             Inr (st\<lparr>pools := (pools st)(speaker \<mapsto> remove1 audio_file available_files),
                     updates_made := updates_made st + 1\<rparr>,
                  JObj (assign_audio new_path d)))))"

text \<open>The loop body (lines 51 to 79) on one element of the catalog.\<close>

definition repair_entry ::
  "filesystem \<Rightarrow> pass_state \<Rightarrow> json \<Rightarrow> py_error + (pass_state \<times> json)" where
  "repair_entry fs st dialogue =
     (case py_getitem dialogue ''Speaker'' of
        Inl e \<Rightarrow> Inl e
      | Inr speaker \<Rightarrow>
     (case dialogue of
        JObj d \<Rightarrow>
          (case already_valid fs (dict_get d ''AudioPath'' (JStr [])) of
             Inl e \<Rightarrow> Inl e
           | Inr True \<Rightarrow> Inr (st, dialogue)
           | Inr False \<Rightarrow>
          (case lookup_speaker (pools st) speaker of
             Inl e \<Rightarrow> Inl e
           | Inr None \<Rightarrow> Inr (st, dialogue)
           | Inr (Some (s, available_files)) \<Rightarrow>
               (if available_files \<noteq> [] then assign_first st d s available_files
                else Inr (st, dialogue))))
      | _ \<Rightarrow> Inl TypeError))"

text \<open>The loop over the entries, in catalog order; the first error ends the run.\<close>

fun repair_all ::
  "filesystem \<Rightarrow> pass_state \<Rightarrow> json list \<Rightarrow> py_error + (pass_state \<times> json list)" where
  "repair_all fs st [] = Inr (st, [])"
| "repair_all fs st (dialogue # rest) =
     (case repair_entry fs st dialogue of
        Inl e \<Rightarrow> Inl e
      | Inr (st1, dialogue') \<Rightarrow>
     (case repair_all fs st1 rest of
        Inl e \<Rightarrow> Inl e
      | Inr (st2, rest') \<Rightarrow> Inr (st2, dialogue' # rest')))"

text \<open>
  \<^verbatim>\<open>for dialogue in dialogues\<close> on the loaded value. A list yields its elements. A
  dict yields its keys and a string its characters, which are strings: the subscript
  of line 51 raises TypeError on the first of them, so only the empty dict and the empty
  string pass, unchanged.
\<close>

fun repair_catalog ::
  "filesystem \<Rightarrow> pass_state \<Rightarrow> json \<Rightarrow> py_error + (pass_state \<times> json)" where
  "repair_catalog fs st (JArr ds) =
     (case repair_all fs st ds of
        Inl e \<Rightarrow> Inl e
      | Inr (st', ds') \<Rightarrow> Inr (st', JArr ds'))"
| "repair_catalog fs st (JObj kvs) = (if kvs = [] then Inr (st, JObj kvs) else Inl TypeError)"
| "repair_catalog fs st (JStr s) = (if s = [] then Inr (st, JStr s) else Inl TypeError)"
| "repair_catalog fs st _ = Inl TypeError"

section \<open>main\<close>

definition catalog_path :: "path \<Rightarrow> path" where
  "catalog_path repo_root = child (child repo_root ''SimpleLoop'') ''dialogue_catalog.json''"

definition voices_dir_of :: "path \<Rightarrow> path" where
  "voices_dir_of repo_root = child repo_root ''voices''"

text \<open>
  Lines 23 to 85 for a given repository root: load the catalog, build the inventory,
  repair, write the catalog back. The result is the file system after the run, in which
  the catalog file holds the repaired value. Console output is not part of the model.
\<close>

definition run_at :: "filesystem \<Rightarrow> path \<Rightarrow> py_error + filesystem" where
  "run_at fs repo_root =
     (let cpath = str_path (catalog_path repo_root) in
      case read_json fs cpath of
        Inl e \<Rightarrow> Inl e
      | Inr dialogues \<Rightarrow>
     (case py_len dialogues of
        Inl e \<Rightarrow> Inl e
      | Inr n \<Rightarrow>
     (case scan_inventory fs (voices_dir_of repo_root) of
        Inl e \<Rightarrow> Inl e
      | Inr by_speaker \<Rightarrow>
     (case repair_catalog fs \<lparr>pools = by_speaker, updates_made = 0\<rparr> dialogues of
        Inl e \<Rightarrow> Inl e
      | Inr (st, dialogues') \<Rightarrow>
     (case write_json fs cpath dialogues' of
        Some e \<Rightarrow> Inl e
      | None \<Rightarrow> Inr (fs\<lparr>read_json := (read_json fs)(cpath := Inr dialogues')\<rparr>))))))"

definition main :: "filesystem \<Rightarrow> py_error + filesystem" where
  "main fs = run_at fs (find_repo_root fs)"

section \<open>Notions used to state the properties\<close>

text \<open>The path of the catalog file as a string, and its content after a run of main.\<close>

definition catalog_file :: "filesystem \<Rightarrow> string" where
  "catalog_file fs = str_path (catalog_path (find_repo_root fs))"

definition catalog_after :: "filesystem \<Rightarrow> py_error + json" where
  "catalog_after fs =
     (case main fs of Inl e \<Rightarrow> Inl e | Inr fs' \<Rightarrow> read_json fs' (catalog_file fs))"

text \<open>
  The four keys the repair assigns to, and what is left of an entry when they are taken
  out: the other keys with their values, in their order.
\<close>

definition repaired_fields :: "string set" where
  "repaired_fields = {''AudioPath'', ''HasAudio'', ''AudioStatus'', ''AudioStatusColor''}"

definition other_fields :: "(string \<times> json) list \<Rightarrow> (string \<times> json) list" where
  "other_fields d = filter (\<lambda>kv. fst kv \<notin> repaired_fields) d"

definition same_other_fields :: "json \<Rightarrow> json \<Rightarrow> bool" where
  "same_other_fields e e' =
     (case (e, e') of
        (JObj d, JObj d') \<Rightarrow> other_fields d' = other_fields d
      | _ \<Rightarrow> False)"

text \<open>
  The entries on whose loop iteration \<^verbatim>\<open>updates_made\<close> was incremented, as they
  are after the iteration, in catalog order: one element for each entry that was
  assigned a new audio path. The list stops where the run raises.
\<close>

fun updated_entries :: "filesystem \<Rightarrow> pass_state \<Rightarrow> json list \<Rightarrow> json list" where
  "updated_entries fs st [] = []"
| "updated_entries fs st (dialogue # rest) =
     (case repair_entry fs st dialogue of
        Inl e \<Rightarrow> []
      | Inr (st1, dialogue') \<Rightarrow>
          (if updates_made st1 = updates_made st then [] else [dialogue'])
          @ updated_entries fs st1 rest)"

text \<open>The files a speaker has in an inventory (none when the speaker is no key).\<close>

definition pool_of :: "inventory \<Rightarrow> string \<Rightarrow> path list" where
  "pool_of by_speaker s = (case by_speaker s of None \<Rightarrow> [] | Some files \<Rightarrow> files)"

definition has_speaker :: "string \<Rightarrow> json \<Rightarrow> bool" where
  "has_speaker s e \<longleftrightarrow> py_getitem e ''Speaker'' = Inr (JStr s)"

definition new_path_of :: "json \<Rightarrow> py_error + json" where
  "new_path_of e = py_getitem e ''AudioPath''"

text \<open>
  What a directory listing of a real file system satisfies: no name contains a slash,
  and a directory lists each child once.
\<close>

definition well_formed_listing :: "dir_item list \<Rightarrow> bool" where
  "well_formed_listing its =
     list_all (\<lambda>it. CHR ''/'' \<notin> set (item_name it) \<and> distinct (item_files it)) its"

definition slash_free_names :: "dir_item list \<Rightarrow> bool" where
  "slash_free_names its = list_all (\<lambda>it. CHR ''/'' \<notin> set (item_name it)) its"

text \<open>The text that \<^verbatim>\<open>str\<close> puts before the name of a speaker directory.\<close>

fun dir_prefix :: "path \<Rightarrow> string" where
  "dir_prefix (Path a cs) =
     (if a then ''/'' else []) @ (if cs = [] then [] else join_parts cs @ ''/'')"

text \<open>Every pool of a scanned inventory is the glob of a listed directory other than previews.\<close>

definition scanned :: "path \<Rightarrow> dir_item list \<Rightarrow> inventory \<Rightarrow> bool" where
  "scanned v its m \<longleftrightarrow>
     (\<forall>s files. m s = Some files \<longrightarrow>
        s \<noteq> ''previews'' \<and>
        (\<exists>it \<in> set its. item_name it = s \<and> files = glob_mp3 (child v s) (item_files it)))"

text \<open>The strings of the files still in the pools.\<close>

definition pool_strs :: "inventory \<Rightarrow> string \<Rightarrow> string list" where
  "pool_strs m s = map str_path (pool_of m s)"

definition available :: "inventory \<Rightarrow> string set" where
  "available m = (\<Union>s. set (pool_strs m s))"

definition distinct_pools :: "inventory \<Rightarrow> bool" where
  "distinct_pools m \<longleftrightarrow>
     (\<forall>s. distinct (pool_strs m s)) \<and>
     (\<forall>s t. s \<noteq> t \<longrightarrow> set (pool_strs m s) \<inter> set (pool_strs m t) = {})"

section \<open>A worked example\<close>

text \<open>
  A repository at \<^verbatim>\<open>/game\<close> with a \<^verbatim>\<open>.git\<close> directory, two speakers with audio
  files, a previews directory, and a catalog of six entries: two Guard entries to
  repair, a third one for which no file is left, an entry of a speaker without a
  directory, a Merchant entry whose file exists, and a Merchant entry that has no
  \<^verbatim>\<open>AudioPath\<close> key but an extra key.
\<close>

definition mk_entry :: "int \<Rightarrow> string \<Rightarrow> string \<Rightarrow> string \<Rightarrow> (string \<times> json) list" where
  "mk_entry i speaker txt audio_path =
     [(''Id'', JInt i), (''Speaker'', JStr speaker), (''Text'', JStr txt),
      (''AudioPath'', JStr audio_path), (''HasAudio'', JBool False),
      (''AudioStatus'', JStr ''Missing''), (''AudioStatusColor'', JStr ''Red'')]"

definition ready_entry :: "int \<Rightarrow> string \<Rightarrow> string \<Rightarrow> string \<Rightarrow> (string \<times> json) list" where
  "ready_entry i speaker txt audio_path =
     [(''Id'', JInt i), (''Speaker'', JStr speaker), (''Text'', JStr txt),
      (''AudioPath'', JStr audio_path), (''HasAudio'', JBool True),
      (''AudioStatus'', JStr ready_label), (''AudioStatusColor'', JStr ''Green'')]"

definition demo_script :: path where
  "demo_script = Path True [''game'', ''scripts'', ''fix_audio_associations.py'']"

definition demo_listing :: "dir_item list" where
  "demo_listing =
     [\<lparr>item_name = ''Guard'', item_is_dir = True, item_files = [''a.mp3'', ''b.mp3'', ''notes.txt'']\<rparr>,
      \<lparr>item_name = ''previews'', item_is_dir = True, item_files = [''p.mp3'']\<rparr>,
      \<lparr>item_name = ''Merchant'', item_is_dir = True, item_files = [''m.mp3'']\<rparr>,
      \<lparr>item_name = ''readme.txt'', item_is_dir = False, item_files = []\<rparr>]"

definition newcomer :: "(string \<times> json) list" where
  "newcomer = [(''Id'', JInt 6), (''Speaker'', JStr ''Merchant''), (''Text'', JStr ''Come again.''),
               (''Mood'', JStr ''happy'')]"

definition demo_catalog :: "json list" where
  "demo_catalog =
     [JObj (mk_entry 1 ''Guard'' ''Halt!'' []),
      JObj (mk_entry 2 ''Guard'' ''Move along.'' ''old/missing.mp3''),
      JObj (mk_entry 3 ''Guard'' ''Nothing to see.'' []),
      JObj (mk_entry 4 ''Ghost'' ''Boo'' []),
      JObj (ready_entry 5 ''Merchant'' ''Welcome!'' ''/game/voices/Merchant/m.mp3''),
      JObj newcomer]"

definition demo_fs :: filesystem where
  "demo_fs =
     \<lparr>script_file = demo_script,
      path_exists = (\<lambda>p. p \<in> set [''/game/.git'', ''/game/voices/Guard/a.mp3'',
                                   ''/game/voices/Guard/b.mp3'', ''/game/voices/Merchant/m.mp3'',
                                   ''/game/voices/previews/p.mp3'']),
      fd_exists = (\<lambda>n. Inr False),
      read_json = (\<lambda>p. if p = ''/game/SimpleLoop/dialogue_catalog.json''
                         then Inr (JArr demo_catalog) else Inl (OSError ''ENOENT'')),
      iterdir = (\<lambda>p. if p = ''/game/voices'' then Inr demo_listing
                       else Inl (OSError ''ENOENT'')),
      write_json = (\<lambda>p v. None)\<rparr>"

definition guard_a :: path where
  "guard_a = Path True [''game'', ''voices'', ''Guard'', ''a.mp3'']"

definition guard_b :: path where
  "guard_b = Path True [''game'', ''voices'', ''Guard'', ''b.mp3'']"

definition merchant_m :: path where
  "merchant_m = Path True [''game'', ''voices'', ''Merchant'', ''m.mp3'']"

definition demo_pools :: inventory where
  "demo_pools = [''Guard'' \<mapsto> [guard_a, guard_b], ''Merchant'' \<mapsto> [merchant_m]]"

definition demo_start :: pass_state where
  "demo_start = \<lparr>pools = demo_pools, updates_made = 0\<rparr>"

definition newcomer_repaired :: "(string \<times> json) list" where
  "newcomer_repaired =
     newcomer @ [(''AudioPath'', JStr ''/game/voices/Merchant/m.mp3''),
                 (''HasAudio'', JBool True), (''AudioStatus'', JStr ready_label),
                 (''AudioStatusColor'', JStr ''Green'')]"

definition demo_repaired :: "json list" where
  "demo_repaired =
     [JObj (ready_entry 1 ''Guard'' ''Halt!'' ''/game/voices/Guard/a.mp3''),
      JObj (ready_entry 2 ''Guard'' ''Move along.'' ''/game/voices/Guard/b.mp3''),
      JObj (mk_entry 3 ''Guard'' ''Nothing to see.'' []),
      JObj (mk_entry 4 ''Ghost'' ''Boo'' []),
      JObj (ready_entry 5 ''Merchant'' ''Welcome!'' ''/game/voices/Merchant/m.mp3''),
      JObj newcomer_repaired]"

definition demo_repaired_again :: "json list" where
  "demo_repaired_again =
     [JObj (ready_entry 1 ''Guard'' ''Halt!'' ''/game/voices/Guard/a.mp3''),
      JObj (ready_entry 2 ''Guard'' ''Move along.'' ''/game/voices/Guard/b.mp3''),
      JObj (ready_entry 3 ''Guard'' ''Nothing to see.'' ''/game/voices/Guard/a.mp3''),
      JObj (mk_entry 4 ''Ghost'' ''Boo'' []),
      JObj (ready_entry 5 ''Merchant'' ''Welcome!'' ''/game/voices/Merchant/m.mp3''),
      JObj newcomer_repaired]"

definition demo_catalog_file :: string where
  "demo_catalog_file = ''/game/SimpleLoop/dialogue_catalog.json''"

definition demo_fs1 :: filesystem where
  "demo_fs1 = demo_fs\<lparr>read_json := (read_json demo_fs)(demo_catalog_file := Inr (JArr demo_repaired))\<rparr>"

definition demo_fs2 :: filesystem where
  "demo_fs2 =
     demo_fs1\<lparr>read_json := (read_json demo_fs1)(demo_catalog_file := Inr (JArr demo_repaired_again))\<rparr>"

text \<open>The same tree without any marker, with a one-entry catalog.\<close>

definition orphan_fs :: filesystem where
  "orphan_fs =
     demo_fs\<lparr>path_exists := (\<lambda>p. False),
             read_json := (\<lambda>p. if p = demo_catalog_file
                               then Inr (JArr [JObj (mk_entry 1 ''Guard'' ''Halt!'' [])])
                               else Inl (OSError ''ENOENT''))\<rparr>"

text \<open>No marker and no catalog file.\<close>

definition lost_fs :: filesystem where
  "lost_fs = demo_fs\<lparr>path_exists := (\<lambda>p. False), read_json := (\<lambda>p. Inl (OSError ''ENOENT''))\<rparr>"

section \<open>The loop body, case by case\<close>

declare walk_up.simps [simp del]

lemma assign_first_Inr:
  assumes "assign_first st d sp (f # remaining) = Inr (st', e')"
  shows "st' = st\<lparr>pools := (pools st)(sp \<mapsto> remaining), updates_made := updates_made st + 1\<rparr>
         \<and> e' = JObj (assign_audio (str_path f) d)"
  using assms by (simp add: assign_first_def split: sum.splits)

lemma lookup_speaker_Some:
  assumes "lookup_speaker m v = Inr (Some (s, files))"
  shows "v = JStr s \<and> m s = Some files"
  using assms by (cases v) (simp_all split: option.splits)

lemma repair_entry_cases:
  assumes "repair_entry fs st e = Inr (st', e')"
  obtains (same) d where "e = JObj d" "st' = st" "e' = e"
  | (assigned) d sp f remaining where "e = JObj d"
      "map_of d ''Speaker'' = Some (JStr sp)" "pools st sp = Some (f # remaining)"
      "already_valid fs (dict_get d ''AudioPath'' (JStr [])) = Inr False"
      "st' = st\<lparr>pools := (pools st)(sp \<mapsto> remaining), updates_made := updates_made st + 1\<rparr>"
      "e' = JObj (assign_audio (str_path f) d)"
proof (cases e)
  case (JObj d)
  from assms JObj obtain speaker where sp: "map_of d ''Speaker'' = Some speaker"
    by (auto simp: repair_entry_def split: option.splits)
  show ?thesis
  proof (cases "already_valid fs (dict_get d ''AudioPath'' (JStr []))")
    case (Inl err)
    with assms JObj sp show ?thesis by (simp add: repair_entry_def)
  next
    case (Inr b)
    show ?thesis
    proof (cases b)
      case True
      with assms JObj sp Inr have "st' = st" "e' = e" by (simp_all add: repair_entry_def)
      with JObj show ?thesis by (rule same)
    next
      case False
      show ?thesis
      proof (cases "lookup_speaker (pools st) speaker")
        case (Inl err)
        with assms JObj sp Inr False show ?thesis by (simp add: repair_entry_def)
      next
        case found: (Inr r)
        show ?thesis
        proof (cases r)
          case None
          with assms JObj sp Inr False found have "st' = st" "e' = e"
            by (simp_all add: repair_entry_def)
          with JObj show ?thesis by (rule same)
        next
          case (Some pr)
          obtain s files where pr: "pr = (s, files)" by (cases pr)
          from found Some pr have lk: "speaker = JStr s" "pools st s = Some files"
            using lookup_speaker_Some by blast+
          show ?thesis
          proof (cases files)
            case Nil
            with assms JObj sp Inr False found Some pr have "st' = st" "e' = e"
              by (simp_all add: repair_entry_def)
            with JObj show ?thesis by (rule same)
          next
            case (Cons f remaining)
            with assms JObj sp Inr False found Some pr
            have "assign_first st d s (f # remaining) = Inr (st', e')"
              by (simp add: repair_entry_def)
            from assign_first_Inr[OF this] JObj sp lk Cons Inr False show ?thesis
              by (intro assigned[of d s f remaining]) simp_all
          qed
        qed
      qed
    qed
  qed
qed (use assms in \<open>simp_all add: repair_entry_def\<close>)

lemma needs_repair_str:
  assumes "p = [] \<or> \<not> path_exists fs p"
  shows "already_valid fs (JStr p) = Inr False"
  using assms by (auto simp: already_valid_def)

lemma valid_str:
  assumes "map_of d ''AudioPath'' = Some (JStr p)" and "p \<noteq> []" and "path_exists fs p"
  shows "already_valid fs (dict_get d ''AudioPath'' (JStr [])) = Inr True"
  using assms by (simp add: dict_get_def already_valid_def)

lemma repair_entry_assign:
  assumes "map_of d ''Speaker'' = Some (JStr sp)"
    and "map_of d ''Id'' = Some ident"
    and "map_of d ''Text'' = Some (JStr txt)"
    and "already_valid fs (dict_get d ''AudioPath'' (JStr [])) = Inr False"
    and "pools st sp = Some (f # remaining)"
  shows "repair_entry fs st (JObj d) =
           Inr (st\<lparr>pools := (pools st)(sp \<mapsto> remaining), updates_made := updates_made st + 1\<rparr>,
                JObj (assign_audio (str_path f) d))"
  using assms by (simp add: repair_entry_def assign_first_def)

lemma repair_entry_no_file:
  assumes "map_of d ''Speaker'' = Some (JStr sp)"
    and "already_valid fs (dict_get d ''AudioPath'' (JStr [])) = Inr False"
    and "pools st sp = None \<or> pools st sp = Some []"
  shows "repair_entry fs st (JObj d) = Inr (st, JObj d)"
  using assms by (auto simp: repair_entry_def)

lemma repair_entry_needs_repair:
  assumes "already_valid fs (dict_get d ''AudioPath'' (JStr [])) = Inr False"
  shows "repair_entry fs st (JObj d) =
     (case map_of d ''Speaker'' of
        None \<Rightarrow> Inl (KeyError ''Speaker'')
      | Some speaker \<Rightarrow>
          (case lookup_speaker (pools st) speaker of
             Inl e \<Rightarrow> Inl e
           | Inr None \<Rightarrow> Inr (st, JObj d)
           | Inr (Some (s, available_files)) \<Rightarrow>
               (if available_files \<noteq> [] then assign_first st d s available_files
                else Inr (st, JObj d))))"
  using assms by (simp add: repair_entry_def split: option.splits)

lemma assign_first_counter:
  assumes "assign_first st d s files = Inr (st', e')"
  shows "updates_made st' = updates_made st + 1"
  using assms by (auto simp: assign_first_def Let_def split: sum.splits)

lemma repair_entry_keeps_valid:
  assumes "repair_entry fs st (JObj d) = Inr (st', e')"
    and "already_valid fs (dict_get d ''AudioPath'' (JStr [])) = Inr True"
  shows "e' = JObj d"
  using assms(1)
proof (cases rule: repair_entry_cases)
  case (same d0)
  then show ?thesis by simp
next
  case (assigned d0 sp f remaining)
  with assms(2) show ?thesis by simp
qed

lemma map_of_assign_audio:
  "map_of (assign_audio p d) =
     (map_of d)(''AudioPath'' \<mapsto> JStr p, ''HasAudio'' \<mapsto> JBool True,
                ''AudioStatus'' \<mapsto> JStr ready_label, ''AudioStatusColor'' \<mapsto> JStr ''Green'')"
  by (simp add: assign_audio_def AList.update_conv')

section \<open>The loop over the catalog\<close>

lemma repair_all_append:
  "repair_all fs st (xs @ ys) =
     (case repair_all fs st xs of
        Inl e \<Rightarrow> Inl e
      | Inr (st1, xs') \<Rightarrow>
          (case repair_all fs st1 ys of
             Inl e \<Rightarrow> Inl e
           | Inr (st2, ys') \<Rightarrow> Inr (st2, xs' @ ys')))"
  by (induction xs arbitrary: st) (simp_all split: sum.splits prod.splits)

lemma repair_all_length:
  "repair_all fs st ds = Inr (st', ds') \<Longrightarrow> length ds' = length ds"
  by (induction ds arbitrary: st ds') (auto split: sum.splits prod.splits)

lemma repair_all_keeps_valid:
  assumes "repair_all fs st ds = Inr (st', ds')"
    and "i < length ds" and "ds ! i = JObj d"
    and "already_valid fs (dict_get d ''AudioPath'' (JStr [])) = Inr True"
  shows "ds' ! i = JObj d"
  using assms(1,2,3)
proof (induction ds arbitrary: st ds' i)
  case Nil
  then show ?case by simp
next
  case (Cons e es)
  from Cons.prems(1) obtain st1 e' es' where
    step: "repair_entry fs st e = Inr (st1, e')" and
    rest: "repair_all fs st1 es = Inr (st', es')" and
    out: "ds' = e' # es'"
    by (auto split: sum.splits prod.splits)
  show ?case
  proof (cases i)
    case 0
    with Cons.prems(3) have "e = JObj d" by simp
    with step assms(4) have "e' = JObj d" using repair_entry_keeps_valid by blast
    with 0 out show ?thesis by simp
  next
    case (Suc j)
    with Cons.prems(2,3) have "j < length es" "es ! j = JObj d" by simp_all
    from Cons.IH[OF rest this] Suc out show ?thesis by simp
  qed
qed

lemma repair_all_pool_absent:
  assumes "repair_all fs st ds = Inr (st', ds')" and "pools st sp = None"
  shows "pools st' sp = None"
  using assms
proof (induction ds arbitrary: st ds')
  case Nil
  then show ?case by simp
next
  case (Cons e es)
  from Cons.prems(1) obtain st1 e' es' where
    step: "repair_entry fs st e = Inr (st1, e')" and
    rest: "repair_all fs st1 es = Inr (st', es')"
    by (auto split: sum.splits prod.splits)
  from step have "pools st1 sp = None"
    using Cons.prems(2) by (cases rule: repair_entry_cases) auto
  with rest show ?case by (rule Cons.IH)
qed

subsection \<open>Fields the repair does not assign to\<close>

lemma other_fields_update:
  "k \<in> repaired_fields \<Longrightarrow> other_fields (AList.update k v d) = other_fields d"
  by (induction d) (auto simp: other_fields_def)

lemma other_fields_assign_audio: "other_fields (assign_audio p d) = other_fields d"
  by (simp add: assign_audio_def other_fields_update repaired_fields_def)

lemma map_of_other_fields:
  "k \<notin> repaired_fields \<Longrightarrow> map_of (other_fields d) k = map_of d k"
  by (induction d) (auto simp: other_fields_def)

lemma repair_entry_frame:
  assumes "repair_entry fs st e = Inr (st', e')"
  shows "same_other_fields e e'"
  using assms
  by (cases rule: repair_entry_cases)
     (simp_all add: same_other_fields_def other_fields_assign_audio)

lemma repair_all_frame:
  "repair_all fs st ds = Inr (st', ds') \<Longrightarrow> list_all2 same_other_fields ds ds'"
proof (induction ds arbitrary: st ds')
  case Nil
  then show ?case by simp
next
  case (Cons e es)
  then obtain st1 e' es' where
    step: "repair_entry fs st e = Inr (st1, e')" and
    rest: "repair_all fs st1 es = Inr (st', es')" and
    out: "ds' = e' # es'"
    by (auto split: sum.splits prod.splits)
  from repair_entry_frame[OF step] Cons.IH[OF rest] out show ?case by simp
qed

subsection \<open>The updated entries\<close>

lemma step_assigned:
  assumes "repair_entry fs st e = Inr (st1, e')" and "updates_made st1 = updates_made st + 1"
  shows "updated_entries fs st (e # es) = e' # updated_entries fs st1 es"
  using assms by simp

lemma has_speaker_assign:
  "has_speaker s (JObj (assign_audio p d)) \<longleftrightarrow> map_of d ''Speaker'' = Some (JStr s)"
  by (auto simp: has_speaker_def map_of_assign_audio split: option.splits)

lemma updated_or_unchanged:
  "repair_all fs st ds = Inr (st', ds') \<Longrightarrow>
   list_all2 (\<lambda>e e'. e' = e \<or> e' \<in> set (updated_entries fs st ds)) ds ds'"
proof (induction ds arbitrary: st ds')
  case Nil
  then show ?case by simp
next
  case (Cons e es)
  from Cons.prems obtain st1 e' es' where
    step: "repair_entry fs st e = Inr (st1, e')" and
    rest: "repair_all fs st1 es = Inr (st', es')" and
    out: "ds' = e' # es'"
    by (auto split: sum.splits prod.splits)
  have sub: "set (updated_entries fs st1 es) \<subseteq> set (updated_entries fs st (e # es))"
    using step by auto
  have "list_all2 (\<lambda>e e'. e' = e \<or> e' \<in> set (updated_entries fs st1 es)) es es'"
    using rest by (rule Cons.IH)
  then have tl: "list_all2 (\<lambda>x x'. x' = x \<or> x' \<in> set (updated_entries fs st (e # es))) es es'"
    by (rule list_all2_mono) (use sub in blast)
  have hd: "e' = e \<or> e' \<in> set (updated_entries fs st (e # es))"
    using step by (cases rule: repair_entry_cases) (use step in auto)
  from hd tl out show ?case
    by (simp del: updated_entries.simps)
qed

lemma updates_made_counts:
  "repair_all fs st ds = Inr (st', ds') \<Longrightarrow>
   updates_made st' = updates_made st + length (updated_entries fs st ds)"
proof (induction ds arbitrary: st ds')
  case Nil
  then show ?case by simp
next
  case (Cons e es)
  from Cons.prems obtain st1 e' es' where
    step: "repair_entry fs st e = Inr (st1, e')" and
    rest: "repair_all fs st1 es = Inr (st', es')"
    by (auto split: sum.splits prod.splits)
  from step show ?case
  proof (cases rule: repair_entry_cases)
    case (same d)
    with step Cons.IH[OF rest] show ?thesis by simp
  next
    case (assigned d sp f remaining)
    with step Cons.IH[OF rest] show ?thesis by simp
  qed
qed

lemma updated_count_le:
  "length (filter (has_speaker s) (updated_entries fs st ds)) \<le> length (pool_of (pools st) s)"
proof (induction ds arbitrary: st)
  case Nil
  then show ?case by simp
next
  case (Cons e es)
  show ?case
  proof (cases "repair_entry fs st e")
    case (Inl err)
    then show ?thesis by simp
  next
    case (Inr r)
    obtain st1 e' where r: "r = (st1, e')" by (cases r)
    from Inr r have step: "repair_entry fs st e = Inr (st1, e')" by simp
    then show ?thesis
    proof (cases rule: repair_entry_cases)
      case (same d)
      with step Cons.IH[of st] show ?thesis by simp
    next
      case (assigned d sp f remaining)
      have upd: "updated_entries fs st (e # es) = e' # updated_entries fs st1 es"
        using step assigned(5) by (intro step_assigned) simp_all
      have pool1: "pool_of (pools st1) t = (if t = sp then remaining else pool_of (pools st) t)"
        for t using assigned(5) by (simp add: pool_of_def)
      have pool0: "pool_of (pools st) sp = f # remaining"
        using assigned(3) by (simp add: pool_of_def)
      have sp: "has_speaker t e' \<longleftrightarrow> t = sp" for t
        using assigned(2,6) by (auto simp: has_speaker_assign)
      from Cons.IH[of st1] show ?thesis
        by (cases "s = sp") (simp_all add: upd pool1 pool0 sp del: updated_entries.simps)
    qed
  qed
qed

lemma updated_count_exact:
  "repair_all fs st ds = Inr (st', ds') \<Longrightarrow>
   length (filter (has_speaker s) (updated_entries fs st ds)) + length (pool_of (pools st') s)
     = length (pool_of (pools st) s)"
proof (induction ds arbitrary: st ds')
  case Nil
  then show ?case by simp
next
  case (Cons e es)
  from Cons.prems obtain st1 e' es' where
    step: "repair_entry fs st e = Inr (st1, e')" and
    rest: "repair_all fs st1 es = Inr (st', es')"
    by (auto split: sum.splits prod.splits)
  from step show ?case
  proof (cases rule: repair_entry_cases)
    case (same d)
    with step Cons.IH[OF rest] show ?thesis by simp
  next
    case (assigned d sp f remaining)
    have upd: "updated_entries fs st (e # es) = e' # updated_entries fs st1 es"
      using step assigned(5) by (intro step_assigned) simp_all
    have pool1: "pool_of (pools st1) t = (if t = sp then remaining else pool_of (pools st) t)"
      for t using assigned(5) by (simp add: pool_of_def)
    have pool0: "pool_of (pools st) sp = f # remaining"
      using assigned(3) by (simp add: pool_of_def)
    have sp: "has_speaker t e' \<longleftrightarrow> t = sp" for t
      using assigned(2,6) by (auto simp: has_speaker_assign)
    from Cons.IH[OF rest] show ?thesis
      by (cases "s = sp") (simp_all add: upd pool1 pool0 sp del: updated_entries.simps)
  qed
qed

section \<open>The inventory of a well-formed listing\<close>

lemma join_parts_snoc: "cs \<noteq> [] \<Longrightarrow> join_parts (cs @ [x]) = join_parts cs @ ''/'' @ x"
  by (induction cs rule: join_parts.induct) simp_all

lemma str_path_file:
  "str_path (child (child v s) n) = dir_prefix v @ s @ ''/'' @ n"
proof (cases v)
  case (Path a cs)
  have "join_parts (cs @ [s, n]) = (if cs = [] then [] else join_parts cs @ ''/'') @ s @ ''/'' @ n"
    using join_parts_snoc[of "cs @ [s]" n] join_parts_snoc[of cs s] by (cases "cs = []") simp_all
  with Path show ?thesis by (cases a) simp_all
qed

lemma split_at_slash:
  assumes "CHR ''/'' \<notin> set s" and "CHR ''/'' \<notin> set t"
    and "s @ CHR ''/'' # n = t @ CHR ''/'' # m"
  shows "s = t \<and> n = m"
  using assms
proof (induction s arbitrary: t)
  case Nil
  then show ?case by (cases t) auto
next
  case (Cons c s)
  then show ?case by (cases t) auto
qed

lemma str_path_file_inj:
  assumes "CHR ''/'' \<notin> set s" and "CHR ''/'' \<notin> set t"
    and "str_path (child (child v s) n) = str_path (child (child v t) m)"
  shows "s = t \<and> n = m"
  using assms split_at_slash[of s t n m] by (simp add: str_path_file)

lemma scan_item_absent:
  assumes "item_name it \<noteq> sp"
  shows "scan_item v m it sp = m sp"
  using assms by (simp add: scan_item_def Let_def)

lemma scan_items_absent:
  assumes "\<forall>it \<in> set its. item_name it \<noteq> sp"
  shows "scan_items v m its sp = m sp"
  using assms by (induction its arbitrary: m) (simp_all add: scan_item_absent)

lemma scanned_scan_item:
  assumes "scanned v its m" and "it \<in> set its"
  shows "scanned v its (scan_item v m it)"
  using assms unfolding scanned_def scan_item_def Let_def by auto

lemma scanned_scan_items:
  assumes "scanned v its m" and "set its' \<subseteq> set its"
  shows "scanned v its (scan_items v m its')"
  using assms
proof (induction its' arbitrary: m)
  case Nil
  then show ?case by simp
next
  case (Cons it its')
  then show ?case by (simp add: scanned_scan_item)
qed

lemma scanned_scan_inventory:
  assumes "iterdir fs (str_path v) = Inr its"
  shows "scan_inventory fs v = Inr (scan_items v Map.empty its)"
    and "scanned v its (scan_items v Map.empty its)"
proof -
  show "scan_inventory fs v = Inr (scan_items v Map.empty its)"
    using assms by (simp add: scan_inventory_def)
  have "scanned v its Map.empty" by (simp add: scanned_def)
  then show "scanned v its (scan_items v Map.empty its)"
    by (rule scanned_scan_items) simp
qed

lemma well_formed_listingD:
  assumes "well_formed_listing its" and "it \<in> set its"
  shows "CHR ''/'' \<notin> set (item_name it)" and "distinct (item_files it)"
  using assms by (auto simp: well_formed_listing_def list_all_iff)

lemma slash_free_namesD:
  assumes "slash_free_names its" and "it \<in> set its"
  shows "CHR ''/'' \<notin> set (item_name it)"
  using assms by (auto simp: slash_free_names_def list_all_iff)

lemma pool_strs_scanned:
  assumes "scanned v its m" and "x \<in> set (pool_strs m s)"
  obtains it n where "it \<in> set its" "item_name it = s" "s \<noteq> ''previews''"
    "n \<in> set (item_files it)" "x = str_path (child (child v s) n)"
proof -
  have "\<exists>files. m s = Some files \<and> x \<in> str_path ` set files"
    using assms(2) by (cases "m s") (auto simp: pool_strs_def pool_of_def)
  then obtain files where files: "m s = Some files" "x \<in> str_path ` set files"
    by blast
  with assms(1) obtain it where it: "s \<noteq> ''previews''" "it \<in> set its" "item_name it = s"
    "files = glob_mp3 (child v s) (item_files it)"
    unfolding scanned_def by blast
  from files(2) it(4) obtain n where "n \<in> set (item_files it)" "x = str_path (child (child v s) n)"
    by (auto simp: glob_mp3_def)
  with it show ?thesis by (intro that[of it n]) simp_all
qed

lemma scanned_distinct_pools:
  assumes "scanned v its m" and "well_formed_listing its"
  shows "distinct_pools m"
proof -
  have "distinct (pool_strs m s)" for s
  proof (cases "m s")
    case None
    then show ?thesis by (simp add: pool_strs_def pool_of_def)
  next
    case (Some files)
    with assms(1) obtain it where it: "it \<in> set its" "item_name it = s"
      "files = glob_mp3 (child v s) (item_files it)"
      unfolding scanned_def by blast
    have inj: "inj_on (\<lambda>n. str_path (child (child v s) n)) A" for A
      by (rule inj_onI) (simp add: str_path_file)
    have "distinct (item_files it)"
      using assms(2) it(1) by (rule well_formed_listingD)
    then have "distinct (map (\<lambda>n. str_path (child (child v s) n))
                 (filter (ends_with ''.mp3'') (item_files it)))"
      by (simp add: distinct_map inj)
    with Some it(3) show ?thesis
      by (simp add: pool_strs_def pool_of_def glob_mp3_def comp_def)
  qed
  moreover have "set (pool_strs m s) \<inter> set (pool_strs m t) = {}" if "s \<noteq> t" for s t
  proof (rule ccontr)
    assume "set (pool_strs m s) \<inter> set (pool_strs m t) \<noteq> {}"
    then obtain x where x: "x \<in> set (pool_strs m s)" "x \<in> set (pool_strs m t)" by blast
    from assms(1) x(1) obtain it n where a: "it \<in> set its" "item_name it = s"
      "x = str_path (child (child v s) n)"
      by (rule pool_strs_scanned)
    from assms(1) x(2) obtain it' n' where b: "it' \<in> set its" "item_name it' = t"
      "x = str_path (child (child v t) n')"
      by (rule pool_strs_scanned)
    have "CHR ''/'' \<notin> set s" "CHR ''/'' \<notin> set t"
      using well_formed_listingD(1)[OF assms(2)] a(1,2) b(1,2) by blast+
    with a(3) b(3) have "s = t" using str_path_file_inj[of s t v n n'] by simp
    with that show False by simp
  qed
  ultimately show ?thesis by (simp add: distinct_pools_def)
qed

lemma scanned_no_previews:
  assumes "scanned v its m" and "slash_free_names its"
  shows "str_path (child (child v ''previews'') name) \<notin> available m"
proof
  assume "str_path (child (child v ''previews'') name) \<in> available m"
  then obtain s where "str_path (child (child v ''previews'') name) \<in> set (pool_strs m s)"
    by (auto simp: available_def)
  with assms(1) obtain it n where a: "it \<in> set its" "item_name it = s" "s \<noteq> ''previews''"
    "str_path (child (child v ''previews'') name) = str_path (child (child v s) n)"
    by (rule pool_strs_scanned)
  have "CHR ''/'' \<notin> set s"
    using slash_free_namesD[OF assms(2) a(1)] a(2) by simp
  moreover have "CHR ''/'' \<notin> set ''previews''" by simp
  ultimately have "''previews'' = s"
    using a(4) str_path_file_inj[of "''previews''" s v name n] by blast
  with a(3) show False by simp
qed

subsection \<open>Taking the first file of a pool\<close>

lemma take_first:
  assumes "distinct_pools m" and "m sp = Some (f # remaining)"
  shows "distinct_pools (m(sp \<mapsto> remaining))"
    and "available (m(sp \<mapsto> remaining)) \<subseteq> available m"
    and "str_path f \<notin> available (m(sp \<mapsto> remaining))"
proof -
  let ?m' = "m(sp \<mapsto> remaining)"
  have old: "pool_strs m sp = str_path f # map str_path remaining"
    using assms(2) by (simp add: pool_strs_def pool_of_def)
  have new: "pool_strs ?m' t = (if t = sp then map str_path remaining else pool_strs m t)" for t
    by (simp add: pool_strs_def pool_of_def)
  have d: "distinct (pool_strs m s)" for s
    using assms(1) by (simp add: distinct_pools_def)
  have dj: "s \<noteq> t \<Longrightarrow> set (pool_strs m s) \<inter> set (pool_strs m t) = {}" for s t
    using assms(1) by (simp add: distinct_pools_def)
  have sub: "set (pool_strs ?m' t) \<subseteq> set (pool_strs m t)" for t
    by (auto simp: new old)
  show "available ?m' \<subseteq> available m"
    using sub by (auto simp: available_def)
  have "distinct (pool_strs ?m' t)" for t
    using d[of t] d[of sp] by (simp add: new old)
  moreover have "set (pool_strs ?m' s) \<inter> set (pool_strs ?m' t) = {}" if "s \<noteq> t" for s t
    using dj[OF that] sub[of s] sub[of t] by blast
  ultimately show "distinct_pools ?m'"
    by (simp add: distinct_pools_def)
  show "str_path f \<notin> available ?m'"
  proof
    assume "str_path f \<in> available ?m'"
    then obtain t where t: "str_path f \<in> set (pool_strs ?m' t)"
      by (auto simp: available_def)
    show False
    proof (cases "t = sp")
      case True
      with t d[of sp] show False by (simp add: new old)
    next
      case False
      with t have "str_path f \<in> set (pool_strs m t)" by (simp add: new)
      moreover have "str_path f \<in> set (pool_strs m sp)" by (simp add: old)
      ultimately show False using dj[of sp t] False by blast
    qed
  qed
qed

lemma first_available:
  assumes "m sp = Some (f # remaining)"
  shows "str_path f \<in> available m"
proof -
  have "str_path f \<in> set (pool_strs m sp)"
    using assms by (simp add: pool_strs_def pool_of_def)
  then show ?thesis by (auto simp: available_def)
qed

lemma new_path_of_assign: "new_path_of (JObj (assign_audio p d)) = Inr (JStr p)"
  by (simp add: new_path_of_def map_of_assign_audio)

lemma new_paths_available:
  "set (map new_path_of (updated_entries fs st ds)) \<subseteq> (\<lambda>p. Inr (JStr p)) ` available (pools st)"
proof (induction ds arbitrary: st)
  case Nil
  then show ?case by simp
next
  case (Cons e es)
  show ?case
  proof (cases "repair_entry fs st e")
    case (Inl err)
    then show ?thesis by simp
  next
    case (Inr r)
    obtain st1 e' where r: "r = (st1, e')" by (cases r)
    from Inr r have step: "repair_entry fs st e = Inr (st1, e')" by simp
    then show ?thesis
    proof (cases rule: repair_entry_cases)
      case (same d)
      with step Cons.IH[of st] show ?thesis by simp
    next
      case (assigned d sp f remaining)
      have upd: "updated_entries fs st (e # es) = e' # updated_entries fs st1 es"
        using step assigned(5) by (intro step_assigned) simp_all
      have "set (pool_strs (pools st1) t) \<subseteq> set (pool_strs (pools st) t)" for t
        using assigned(3,5) by (auto simp: pool_strs_def pool_of_def)
      then have sub: "available (pools st1) \<subseteq> available (pools st)"
        by (auto simp: available_def)
      have "new_path_of e' = Inr (JStr (str_path f))"
        using assigned(6) by (simp add: new_path_of_assign)
      then have here: "new_path_of e' \<in> (\<lambda>p. Inr (JStr p)) ` available (pools st)"
        using first_available[of "pools st" sp f remaining] assigned(3) by simp
      from Cons.IH[of st1] sub
      have "set (map new_path_of (updated_entries fs st1 es))
                \<subseteq> (\<lambda>p. Inr (JStr p)) ` available (pools st)"
        by blast
      with here show ?thesis
        by (simp add: upd del: updated_entries.simps)
    qed
  qed
qed

lemma new_paths_available_distinct:
  assumes "distinct_pools (pools st)"
  shows "set (map new_path_of (updated_entries fs st ds)) \<subseteq> (\<lambda>p. Inr (JStr p)) ` available (pools st)
         \<and> distinct (map new_path_of (updated_entries fs st ds))"
  using assms
proof (induction ds arbitrary: st)
  case Nil
  then show ?case by simp
next
  case (Cons e es)
  show ?case
  proof (cases "repair_entry fs st e")
    case (Inl err)
    then show ?thesis by simp
  next
    case (Inr r)
    obtain st1 e' where r: "r = (st1, e')" by (cases r)
    from Inr r have step: "repair_entry fs st e = Inr (st1, e')" by simp
    then show ?thesis
    proof (cases rule: repair_entry_cases)
      case (same d)
      with step Cons.IH[OF Cons.prems] show ?thesis by simp
    next
      case (assigned d sp f remaining)
      have upd: "updated_entries fs st (e # es) = e' # updated_entries fs st1 es"
        using step assigned(5) by (intro step_assigned) simp_all
      have p1: "pools st1 = (pools st)(sp \<mapsto> remaining)"
        using assigned(5) by simp
      note tf = take_first[OF Cons.prems assigned(3), folded p1]
      from Cons.IH[OF tf(1)] have
        ih1: "set (map new_path_of (updated_entries fs st1 es))
                \<subseteq> (\<lambda>p. Inr (JStr p)) ` available (pools st1)" and
        ih2: "distinct (map new_path_of (updated_entries fs st1 es))"
        by simp_all
      have np: "new_path_of e' = Inr (JStr (str_path f))"
        using assigned(6) by (simp add: new_path_of_assign)
      have fresh: "new_path_of e' \<notin> set (map new_path_of (updated_entries fs st1 es))"
        using ih1 tf(3) np by auto
      have here: "new_path_of e' \<in> (\<lambda>p. Inr (JStr p)) ` available (pools st)"
        using np first_available[of "pools st" sp f remaining] assigned(3) by simp
      from ih1 tf(2) have "set (map new_path_of (updated_entries fs st1 es))
                \<subseteq> (\<lambda>p. Inr (JStr p)) ` available (pools st)"
        by blast
      with here fresh ih2 show ?thesis
        by (simp add: upd del: updated_entries.simps)
    qed
  qed
qed

section \<open>Runs of main\<close>

lemma main_Inr_JArr:
  assumes "main fs = Inr fs'" and "read_json fs (catalog_file fs) = Inr (JArr ds)"
  obtains by_speaker st' ds' where
    "scan_inventory fs (voices_dir_of (find_repo_root fs)) = Inr by_speaker"
    "repair_all fs \<lparr>pools = by_speaker, updates_made = 0\<rparr> ds = Inr (st', ds')"
    "fs' = fs\<lparr>read_json := (read_json fs)(catalog_file fs := Inr (JArr ds'))\<rparr>"
  using assms
  by (auto simp: main_def run_at_def catalog_file_def Let_def
           split: sum.splits prod.splits option.splits)

lemma walk_up_path_exists:
  assumes "path_exists fs' = path_exists fs"
  shows "walk_up fs' p = walk_up fs p"
  using assms
proof (induction fs p rule: walk_up.induct)
  case (1 fs current)
  have hm: "has_marker fs' q = has_marker fs q" for q
    by (simp add: has_marker_def "1.prems")
  show ?case
  proof (cases "parent current \<noteq> current \<and> \<not> has_marker fs current")
    case True
    with "1.IH" "1.prems" have "walk_up fs' (parent current) = walk_up fs (parent current)"
      by simp
    with True show ?thesis
      by (subst walk_up.simps, subst (2) walk_up.simps) (simp add: hm)
  next
    case False
    then show ?thesis
      by (subst walk_up.simps, subst (2) walk_up.simps) (auto simp: hm)
  qed
qed

lemma find_repo_root_after_write:
  "find_repo_root (fs\<lparr>read_json := r\<rparr>) = find_repo_root fs"
  by (simp add: find_repo_root_def walk_up_path_exists[of "fs\<lparr>read_json := r\<rparr>" fs]
           split: option.splits)

lemma catalog_file_after_write:
  "catalog_file (fs\<lparr>read_json := r\<rparr>) = catalog_file fs"
  by (simp add: catalog_file_def find_repo_root_after_write)

lemma repair_entry_after_write:
  "repair_entry (fs\<lparr>read_json := r\<rparr>) st e = repair_entry fs st e"
proof -
  have "os_path_exists (fs\<lparr>read_json := r\<rparr>) v = os_path_exists fs v" for v
    by (cases v) simp_all
  then have av: "already_valid (fs\<lparr>read_json := r\<rparr>) = already_valid fs"
    by (intro ext) (simp add: already_valid_def)
  show ?thesis unfolding repair_entry_def av by (rule refl)
qed

lemma repair_all_after_write:
  "repair_all (fs\<lparr>read_json := r\<rparr>) st ds = repair_all fs st ds"
  by (induction ds arbitrary: st)
     (simp_all add: repair_entry_after_write split: sum.splits prod.splits)

section \<open>The example, evaluated\<close>

lemmas demo_defs = demo_fs_def demo_catalog_def demo_listing_def demo_script_def
  mk_entry_def ready_entry_def newcomer_def guard_a_def guard_b_def merchant_m_def
  demo_pools_def demo_start_def newcomer_repaired_def demo_repaired_def
  demo_repaired_again_def demo_catalog_file_def demo_fs1_def demo_fs2_def orphan_fs_def
  lost_fs_def

lemmas run_defs = catalog_after_def main_def run_at_def find_repo_root_def walk_up.simps
  has_marker_def catalog_path_def voices_dir_of_def scan_inventory_def scan_item_def
  glob_mp3_def ends_with_def repair_entry_def already_valid_def dict_get_def
  assign_first_def assign_audio_def catalog_file_def Let_def

lemma demo_root: "find_repo_root demo_fs = Path True [''game'']"
  by (simp add: demo_defs run_defs)

lemma demo_iterdir: "iterdir demo_fs (str_path (Path True [''game'', ''voices''])) = Inr demo_listing"
  by (simp add: demo_fs_def)

lemma demo_inventory:
  "scan_inventory demo_fs (Path True [''game'', ''voices'']) = Inr demo_pools"
  by (simp add: demo_defs run_defs)

lemma demo_repair:
  "repair_all demo_fs demo_start demo_catalog =
     Inr (\<lparr>pools = demo_pools(''Guard'' \<mapsto> [], ''Merchant'' \<mapsto> []), updates_made = 3\<rparr>,
          demo_repaired)"
  by (simp add: demo_defs run_defs)

lemma demo_updated:
  "updated_entries demo_fs demo_start demo_catalog =
     [JObj (ready_entry 1 ''Guard'' ''Halt!'' ''/game/voices/Guard/a.mp3''),
      JObj (ready_entry 2 ''Guard'' ''Move along.'' ''/game/voices/Guard/b.mp3''),
      JObj newcomer_repaired]"
  by (simp add: demo_defs run_defs)

lemma demo_first_run: "main demo_fs = Inr demo_fs1"
  by (simp add: demo_defs run_defs)

lemma demo_second_run: "main demo_fs1 = Inr demo_fs2"
  by (simp add: demo_defs run_defs)

lemma demo_run: "catalog_after demo_fs = Inr (JArr demo_repaired)"
  by (simp add: demo_defs run_defs)

section \<open>The claims\<close>

text \<open>
  C1. An entry whose audio path is empty or names a file that does not exist, and whose
  speaker has a file left in the inventory when the loop reaches the entry, is assigned
  the first remaining file of that speaker: its \<^verbatim>\<open>AudioPath\<close> becomes the string of
  that file, \<^verbatim>\<open>HasAudio\<close> true, \<^verbatim>\<open>AudioStatus\<close> the check mark followed by
  \<^verbatim>\<open> Ready\<close>, \<^verbatim>\<open>AudioStatusColor\<close> \<^verbatim>\<open>Green\<close>; the file leaves the pool, and the loop
  goes on with the entries after it. The entry has the identifier and the text that
  the catalog format gives every entry (line 68 reads both).
\<close>

theorem repair_assigns_first_remaining_file:
  assumes "repair_all fs st pre = Inr (st1, pre')"
    and "map_of d ''Speaker'' = Some (JStr sp)"
    and "map_of d ''Id'' = Some ident"
    and "map_of d ''Text'' = Some (JStr txt)"
    and "map_of d ''AudioPath'' = Some (JStr p)"
    and "p = [] \<or> \<not> path_exists fs p"
    and "pools st1 sp = Some (f # remaining)"
  shows "repair_all fs st (pre @ JObj d # post) =
           (case repair_all fs
                   (st1\<lparr>pools := (pools st1)(sp \<mapsto> remaining),
                        updates_made := updates_made st1 + 1\<rparr>) post of
              Inl e \<Rightarrow> Inl e
            | Inr (st2, post') \<Rightarrow>
                Inr (st2, pre' @ JObj (assign_audio (str_path f) d) # post'))
         \<and> map_of (assign_audio (str_path f) d) ''AudioPath'' = Some (JStr (str_path f))
         \<and> map_of (assign_audio (str_path f) d) ''HasAudio'' = Some (JBool True)
         \<and> map_of (assign_audio (str_path f) d) ''AudioStatus''
               = Some (JStr ([CHR 0xE2, CHR 0x9C, CHR 0x85] @ '' Ready''))
         \<and> map_of (assign_audio (str_path f) d) ''AudioStatusColor'' = Some (JStr ''Green'')"
proof -
  have "already_valid fs (dict_get d ''AudioPath'' (JStr [])) = Inr False"
    using assms(5,6) by (simp add: dict_get_def needs_repair_str)
  with assms(2,3,4,7) have step: "repair_entry fs st1 (JObj d) =
      Inr (st1\<lparr>pools := (pools st1)(sp \<mapsto> remaining), updates_made := updates_made st1 + 1\<rparr>,
           JObj (assign_audio (str_path f) d))"
    by (intro repair_entry_assign)
  have "repair_all fs st (pre @ JObj d # post) =
           (case repair_all fs
                   (st1\<lparr>pools := (pools st1)(sp \<mapsto> remaining),
                        updates_made := updates_made st1 + 1\<rparr>) post of
              Inl e \<Rightarrow> Inl e
            | Inr (st2, post') \<Rightarrow> Inr (st2, pre' @ JObj (assign_audio (str_path f) d) # post'))"
    using assms(1) step by (simp add: repair_all_append split: sum.splits prod.splits)
  then show ?thesis
    by (simp add: map_of_assign_audio ready_label_def)
qed

text \<open>The two Guard entries of the example: the second one gets the second file.\<close>

theorem first_remaining_file_witness:
  "repair_all demo_fs demo_start [JObj (mk_entry 1 ''Guard'' ''Halt!'' [])]
     = Inr (\<lparr>pools = demo_pools(''Guard'' \<mapsto> [guard_b]), updates_made = 1\<rparr>,
            [JObj (ready_entry 1 ''Guard'' ''Halt!'' ''/game/voices/Guard/a.mp3'')])
   \<and> map_of (mk_entry 2 ''Guard'' ''Move along.'' ''old/missing.mp3'') ''Speaker''
        = Some (JStr ''Guard'')
   \<and> map_of (mk_entry 2 ''Guard'' ''Move along.'' ''old/missing.mp3'') ''Id'' = Some (JInt 2)
   \<and> map_of (mk_entry 2 ''Guard'' ''Move along.'' ''old/missing.mp3'') ''Text''
        = Some (JStr ''Move along.'')
   \<and> map_of (mk_entry 2 ''Guard'' ''Move along.'' ''old/missing.mp3'') ''AudioPath''
        = Some (JStr ''old/missing.mp3'')
   \<and> \<not> path_exists demo_fs ''old/missing.mp3''
   \<and> pools \<lparr>pools = demo_pools(''Guard'' \<mapsto> [guard_b]), updates_made = 1\<rparr> ''Guard''
        = Some [guard_b]
   \<and> repair_all demo_fs demo_start
        [JObj (mk_entry 1 ''Guard'' ''Halt!'' []),
         JObj (mk_entry 2 ''Guard'' ''Move along.'' ''old/missing.mp3'')]
     = Inr (\<lparr>pools = demo_pools(''Guard'' \<mapsto> [guard_b], ''Guard'' \<mapsto> []), updates_made = 2\<rparr>,
            [JObj (ready_entry 1 ''Guard'' ''Halt!'' ''/game/voices/Guard/a.mp3''),
             JObj (ready_entry 2 ''Guard'' ''Move along.'' ''/game/voices/Guard/b.mp3'')])"
proof -
  let ?d = "mk_entry 2 ''Guard'' ''Move along.'' ''old/missing.mp3''"
  let ?st1 = "\<lparr>pools = demo_pools(''Guard'' \<mapsto> [guard_b]), updates_made = 1\<rparr>"
  have h1: "repair_all demo_fs demo_start [JObj (mk_entry 1 ''Guard'' ''Halt!'' [])]
     = Inr (?st1, [JObj (ready_entry 1 ''Guard'' ''Halt!'' ''/game/voices/Guard/a.mp3'')])"
    by (simp add: demo_defs run_defs)
  have h2: "map_of ?d ''Speaker'' = Some (JStr ''Guard'')"
    and h3: "map_of ?d ''Id'' = Some (JInt 2)"
    and h4: "map_of ?d ''Text'' = Some (JStr ''Move along.'')"
    and h5: "map_of ?d ''AudioPath'' = Some (JStr ''old/missing.mp3'')"
    by (simp_all add: mk_entry_def)
  have h6: "\<not> path_exists demo_fs ''old/missing.mp3''"
    by (simp add: demo_fs_def)
  then have h6': "''old/missing.mp3'' = [] \<or> \<not> path_exists demo_fs ''old/missing.mp3''"
    by simp
  have h7: "pools ?st1 ''Guard'' = Some (guard_b # [])"
    by simp
  have c: "repair_all demo_fs demo_start
        [JObj (mk_entry 1 ''Guard'' ''Halt!'' []), JObj ?d]
     = Inr (\<lparr>pools = demo_pools(''Guard'' \<mapsto> [guard_b], ''Guard'' \<mapsto> []), updates_made = 2\<rparr>,
            [JObj (ready_entry 1 ''Guard'' ''Halt!'' ''/game/voices/Guard/a.mp3''),
             JObj (ready_entry 2 ''Guard'' ''Move along.'' ''/game/voices/Guard/b.mp3'')])"
    using repair_assigns_first_remaining_file[OF h1 h2 h3 h4 h5 h6' h7, of "[]"]
    by (simp add: assign_audio_def mk_entry_def ready_entry_def guard_b_def ready_label_def
          del: repair_all.simps(2))
  from h1 h2 h3 h4 h5 h6 h7 c show ?thesis by simp
qed

text \<open>
  C2. An entry with a non-empty audio path that exists when the run starts is written
  back as it was read, and a second run leaves it as it was, too.
\<close>

theorem valid_entries_unchanged_by_runs:
  assumes "main fs = Inr fs1" and "main fs1 = Inr fs2"
    and "read_json fs (catalog_file fs) = Inr (JArr ds)"
    and "i < length ds" and "ds ! i = JObj d"
    and "map_of d ''AudioPath'' = Some (JStr p)" and "p \<noteq> []" and "path_exists fs p"
  shows "\<exists>ds1 ds2. read_json fs1 (catalog_file fs) = Inr (JArr ds1)
            \<and> read_json fs2 (catalog_file fs) = Inr (JArr ds2)
            \<and> ds1 ! i = ds ! i \<and> ds2 ! i = ds ! i"
proof -
  have valid: "already_valid fs (dict_get d ''AudioPath'' (JStr [])) = Inr True"
    using assms(6,7,8) by (rule valid_str)
  from assms(1,3) obtain inv1 st1 ds1 where
    run1: "repair_all fs \<lparr>pools = inv1, updates_made = 0\<rparr> ds = Inr (st1, ds1)" and
    fs1: "fs1 = fs\<lparr>read_json := (read_json fs)(catalog_file fs := Inr (JArr ds1))\<rparr>"
    by (rule main_Inr_JArr)
  have len1: "length ds1 = length ds"
    using run1 by (rule repair_all_length)
  have keep1: "ds1 ! i = JObj d"
    using run1 assms(4,5) valid by (rule repair_all_keeps_valid)
  have cf1: "catalog_file fs1 = catalog_file fs"
    by (simp add: fs1 catalog_file_after_write)
  have read1: "read_json fs1 (catalog_file fs1) = Inr (JArr ds1)"
    by (simp add: cf1) (simp add: fs1)
  from assms(2) read1 obtain inv2 st2 ds2 where
    run2: "repair_all fs1 \<lparr>pools = inv2, updates_made = 0\<rparr> ds1 = Inr (st2, ds2)" and
    fs2: "fs2 = fs1\<lparr>read_json := (read_json fs1)(catalog_file fs1 := Inr (JArr ds2))\<rparr>"
    by (rule main_Inr_JArr)
  from run2 have run2': "repair_all fs \<lparr>pools = inv2, updates_made = 0\<rparr> ds1 = Inr (st2, ds2)"
    by (simp add: fs1 repair_all_after_write)
  have keep2: "ds2 ! i = JObj d"
    using run2' _ keep1 valid by (rule repair_all_keeps_valid) (simp add: len1 assms(4))
  have "read_json fs1 (catalog_file fs) = Inr (JArr ds1)"
    using read1 cf1 by simp
  moreover have "read_json fs2 (catalog_file fs) = Inr (JArr ds2)"
    by (simp add: fs2 cf1)
  ultimately show ?thesis using keep1 keep2 assms(5) by simp
qed

text \<open>The Merchant entry of the example (the fifth) through two runs.\<close>

theorem valid_entries_unchanged_witness:
  "main demo_fs = Inr demo_fs1 \<and> main demo_fs1 = Inr demo_fs2
   \<and> read_json demo_fs (catalog_file demo_fs) = Inr (JArr demo_catalog)
   \<and> 4 < length demo_catalog
   \<and> demo_catalog ! 4
        = JObj (ready_entry 5 ''Merchant'' ''Welcome!'' ''/game/voices/Merchant/m.mp3'')
   \<and> map_of (ready_entry 5 ''Merchant'' ''Welcome!'' ''/game/voices/Merchant/m.mp3'')
         ''AudioPath'' = Some (JStr ''/game/voices/Merchant/m.mp3'')
   \<and> ''/game/voices/Merchant/m.mp3'' \<noteq> []
   \<and> path_exists demo_fs ''/game/voices/Merchant/m.mp3''
   \<and> (\<exists>ds1 ds2. read_json demo_fs1 (catalog_file demo_fs) = Inr (JArr ds1)
            \<and> read_json demo_fs2 (catalog_file demo_fs) = Inr (JArr ds2)
            \<and> ds1 ! 4 = demo_catalog ! 4 \<and> ds2 ! 4 = demo_catalog ! 4)"
proof -
  have h1: "main demo_fs = Inr demo_fs1" by (rule demo_first_run)
  have h2: "main demo_fs1 = Inr demo_fs2" by (rule demo_second_run)
  have h3: "read_json demo_fs (catalog_file demo_fs) = Inr (JArr demo_catalog)"
    by (simp add: catalog_file_def demo_root catalog_path_def) (simp add: demo_fs_def)
  have h4: "4 < length demo_catalog" by (simp add: demo_catalog_def)
  have h5: "demo_catalog ! 4
        = JObj (ready_entry 5 ''Merchant'' ''Welcome!'' ''/game/voices/Merchant/m.mp3'')"
    by (simp add: demo_catalog_def)
  have h6: "map_of (ready_entry 5 ''Merchant'' ''Welcome!'' ''/game/voices/Merchant/m.mp3'')
         ''AudioPath'' = Some (JStr ''/game/voices/Merchant/m.mp3'')"
    by (simp add: ready_entry_def)
  have h7: "''/game/voices/Merchant/m.mp3'' \<noteq> []" by simp
  have h8: "path_exists demo_fs ''/game/voices/Merchant/m.mp3''" by (simp add: demo_fs_def)
  note c = valid_entries_unchanged_by_runs[OF h1 h2 h3 h4 h5 h6 h7 h8]
  from h1 h2 h3 h4 h5 h6 h7 h8 c show ?thesis by blast
qed

text \<open>
  C3, as the code has it. When the walk finds no marker, \<^verbatim>\<open>find_repo_root\<close> does not
  fail: it returns the grandparent directory of the script, main runs from there, and
  the run only aborts when something below that directory fails, as when the catalog
  cannot be loaded.
\<close>

theorem no_marker_falls_back:
  assumes "walk_up fs (parent (parent (script_file fs))) = None"
  shows "find_repo_root fs = parent (parent (script_file fs))
       \<and> main fs = run_at fs (parent (parent (script_file fs)))
       \<and> (\<forall>e. read_json fs (str_path (catalog_path (parent (parent (script_file fs))))) = Inl e
             \<longrightarrow> main fs = Inl e)"
  using assms by (simp add: find_repo_root_def main_def run_at_def)

text \<open>A tree with no marker and no catalog: the error is that of the load.\<close>

theorem no_marker_falls_back_witness:
  "walk_up lost_fs (parent (parent (script_file lost_fs))) = None
   \<and> read_json lost_fs (str_path (catalog_path (parent (parent (script_file lost_fs)))))
        = Inl (OSError ''ENOENT'')
   \<and> find_repo_root lost_fs = Path True [''game'']
   \<and> main lost_fs = Inl (OSError ''ENOENT'')"
proof -
  have h: "walk_up lost_fs (parent (parent (script_file lost_fs))) = None"
    by (simp add: demo_defs run_defs)
  have r: "read_json lost_fs (str_path (catalog_path (parent (parent (script_file lost_fs)))))
        = Inl (OSError ''ENOENT'')"
    by (simp add: demo_defs)
  from no_marker_falls_back[OF h] r have
    "find_repo_root lost_fs = parent (parent (script_file lost_fs))"
    "main lost_fs = Inl (OSError ''ENOENT'')"
    by blast+
  moreover have "parent (parent (script_file lost_fs)) = Path True [''game'']"
    by (simp add: demo_defs)
  ultimately show ?thesis using h r by simp
qed

text \<open>
  C3 as stated fails: in a tree with no marker at all the walk runs out, and the run
  still repairs the catalog under the directory the script is in.
\<close>

theorem no_root_abort_counterexample:
  "walk_up orphan_fs (parent (parent (script_file orphan_fs))) = None
   \<and> catalog_after orphan_fs
        = Inr (JArr [JObj (ready_entry 1 ''Guard'' ''Halt!'' ''/game/voices/Guard/a.mp3'')])"
  by (simp add: demo_defs run_defs)

text \<open>
  C4. The audio paths assigned in one run are pairwise different: the list of the new
  paths, one for each updated entry, has no duplicates. The listing of the voices
  directory is that of a file system (no slash in a name, no child listed twice).
\<close>

theorem assigned_paths_pairwise_different:
  assumes "iterdir fs (str_path voices_dir) = Inr its"
    and "well_formed_listing its"
    and "scan_inventory fs voices_dir = Inr by_speaker"
  shows "distinct (map new_path_of
           (updated_entries fs \<lparr>pools = by_speaker, updates_made = 0\<rparr> ds))"
proof -
  from scanned_scan_inventory[OF assms(1)] assms(3)
  have "scanned voices_dir its by_speaker" by simp
  then have "distinct_pools by_speaker"
    using assms(2) by (rule scanned_distinct_pools)
  then have "distinct_pools (pools \<lparr>pools = by_speaker, updates_made = 0\<rparr>)" by simp
  from new_paths_available_distinct[OF this] show ?thesis by blast
qed

text \<open>The three assignments of the example.\<close>

theorem assigned_paths_different_witness:
  "iterdir demo_fs (str_path (Path True [''game'', ''voices''])) = Inr demo_listing
   \<and> well_formed_listing demo_listing
   \<and> scan_inventory demo_fs (Path True [''game'', ''voices'']) = Inr demo_pools
   \<and> map new_path_of
        (updated_entries demo_fs \<lparr>pools = demo_pools, updates_made = 0\<rparr> demo_catalog)
      = [Inr (JStr ''/game/voices/Guard/a.mp3''), Inr (JStr ''/game/voices/Guard/b.mp3''),
         Inr (JStr ''/game/voices/Merchant/m.mp3'')]
   \<and> distinct (map new_path_of
        (updated_entries demo_fs \<lparr>pools = demo_pools, updates_made = 0\<rparr> demo_catalog))"
proof -
  have h1: "iterdir demo_fs (str_path (Path True [''game'', ''voices''])) = Inr demo_listing"
    by (rule demo_iterdir)
  have h2: "well_formed_listing demo_listing"
    by (simp add: well_formed_listing_def demo_listing_def)
  have h3: "scan_inventory demo_fs (Path True [''game'', ''voices'']) = Inr demo_pools"
    by (rule demo_inventory)
  have v: "map new_path_of
        (updated_entries demo_fs \<lparr>pools = demo_pools, updates_made = 0\<rparr> demo_catalog)
      = [Inr (JStr ''/game/voices/Guard/a.mp3''), Inr (JStr ''/game/voices/Guard/b.mp3''),
         Inr (JStr ''/game/voices/Merchant/m.mp3'')]"
    using demo_updated
    by (simp add: demo_start_def new_path_of_def ready_entry_def newcomer_repaired_def
          newcomer_def)
  from assigned_paths_pairwise_different[OF h1 h2 h3, of demo_catalog] h1 h2 h3 v
  show ?thesis by blast
qed

text \<open>
  C5. An entry to repair whose speaker is no key of the inventory (no directory of that
  name, or no audio file in it) or has no file left is written back unchanged, the state
  is unchanged, and the loop goes on with the entries after it.
\<close>

theorem unresolvable_entry_is_skipped:
  assumes "repair_all fs st pre = Inr (st1, pre')"
    and "map_of d ''Speaker'' = Some (JStr sp)"
    and "dict_get d ''AudioPath'' (JStr []) = JStr p"
    and "p = [] \<or> \<not> path_exists fs p"
    and "pools st1 sp = None \<or> pools st1 sp = Some []"
  shows "repair_all fs st (pre @ JObj d # post) =
           (case repair_all fs st1 post of
              Inl e \<Rightarrow> Inl e
            | Inr (st2, post') \<Rightarrow> Inr (st2, pre' @ JObj d # post'))"
proof -
  have "already_valid fs (dict_get d ''AudioPath'' (JStr [])) = Inr False"
    using assms(3,4) by (simp add: needs_repair_str)
  with assms(2,5) have "repair_entry fs st1 (JObj d) = Inr (st1, JObj d)"
    by (intro repair_entry_no_file)
  with assms(1) show ?thesis
    by (simp add: repair_all_append split: sum.splits prod.splits)
qed

text \<open>The third Guard entry of the example, after the two files are used up.\<close>

theorem unresolvable_entry_witness:
  "repair_all demo_fs demo_start
      [JObj (mk_entry 1 ''Guard'' ''Halt!'' []),
       JObj (mk_entry 2 ''Guard'' ''Move along.'' ''old/missing.mp3'')]
     = Inr (\<lparr>pools = demo_pools(''Guard'' \<mapsto> []), updates_made = 2\<rparr>,
            [JObj (ready_entry 1 ''Guard'' ''Halt!'' ''/game/voices/Guard/a.mp3''),
             JObj (ready_entry 2 ''Guard'' ''Move along.'' ''/game/voices/Guard/b.mp3'')])
   \<and> map_of (mk_entry 3 ''Guard'' ''Nothing to see.'' []) ''Speaker'' = Some (JStr ''Guard'')
   \<and> dict_get (mk_entry 3 ''Guard'' ''Nothing to see.'' []) ''AudioPath'' (JStr []) = JStr []
   \<and> pools \<lparr>pools = demo_pools(''Guard'' \<mapsto> []), updates_made = 2\<rparr> ''Guard'' = Some []
   \<and> repair_all demo_fs demo_start
        [JObj (mk_entry 1 ''Guard'' ''Halt!'' []),
         JObj (mk_entry 2 ''Guard'' ''Move along.'' ''old/missing.mp3''),
         JObj (mk_entry 3 ''Guard'' ''Nothing to see.'' []),
         JObj (mk_entry 4 ''Ghost'' ''Boo'' [])]
     = Inr (\<lparr>pools = demo_pools(''Guard'' \<mapsto> []), updates_made = 2\<rparr>,
            [JObj (ready_entry 1 ''Guard'' ''Halt!'' ''/game/voices/Guard/a.mp3''),
             JObj (ready_entry 2 ''Guard'' ''Move along.'' ''/game/voices/Guard/b.mp3''),
             JObj (mk_entry 3 ''Guard'' ''Nothing to see.'' []),
             JObj (mk_entry 4 ''Ghost'' ''Boo'' [])])"
proof -
  let ?st1 = "\<lparr>pools = demo_pools(''Guard'' \<mapsto> []), updates_made = 2\<rparr>"
  let ?d = "mk_entry 3 ''Guard'' ''Nothing to see.'' []"
  have h1: "repair_all demo_fs demo_start
      [JObj (mk_entry 1 ''Guard'' ''Halt!'' []),
       JObj (mk_entry 2 ''Guard'' ''Move along.'' ''old/missing.mp3'')]
     = Inr (?st1,
            [JObj (ready_entry 1 ''Guard'' ''Halt!'' ''/game/voices/Guard/a.mp3''),
             JObj (ready_entry 2 ''Guard'' ''Move along.'' ''/game/voices/Guard/b.mp3'')])"
    by (simp add: demo_defs run_defs)
  have h2: "map_of ?d ''Speaker'' = Some (JStr ''Guard'')" by (simp add: mk_entry_def)
  have h3: "dict_get ?d ''AudioPath'' (JStr []) = JStr []" by (simp add: mk_entry_def dict_get_def)
  have h4: "[] = [] \<or> \<not> path_exists demo_fs []" by simp
  have h5: "pools ?st1 ''Guard'' = Some []" by simp
  then have h5': "pools ?st1 ''Guard'' = None \<or> pools ?st1 ''Guard'' = Some []" by simp
  have tl: "repair_all demo_fs ?st1 [JObj (mk_entry 4 ''Ghost'' ''Boo'' [])]
      = Inr (?st1, [JObj (mk_entry 4 ''Ghost'' ''Boo'' [])])"
    by (simp add: demo_defs run_defs)
  have c: "repair_all demo_fs demo_start
        [JObj (mk_entry 1 ''Guard'' ''Halt!'' []),
         JObj (mk_entry 2 ''Guard'' ''Move along.'' ''old/missing.mp3''),
         JObj ?d, JObj (mk_entry 4 ''Ghost'' ''Boo'' [])]
     = Inr (?st1,
            [JObj (ready_entry 1 ''Guard'' ''Halt!'' ''/game/voices/Guard/a.mp3''),
             JObj (ready_entry 2 ''Guard'' ''Move along.'' ''/game/voices/Guard/b.mp3''),
             JObj ?d, JObj (mk_entry 4 ''Ghost'' ''Boo'' [])])"
    using unresolvable_entry_is_skipped[OF h1 h2 h3 h4 h5',
        of "[JObj (mk_entry 4 ''Ghost'' ''Boo'' [])]"]
    by (simp add: tl del: repair_all.simps)
  from h1 h2 h3 h5 c show ?thesis by simp
qed

text \<open>
  C6. For every speaker, the number of entries assigned a new path in a run is at most
  the number of files the scan found for the speaker; the two differ by the files that
  are left.
\<close>

theorem assignments_bounded_by_discovered_files:
  assumes "scan_inventory fs voices_dir = Inr by_speaker"
    and "repair_all fs \<lparr>pools = by_speaker, updates_made = 0\<rparr> ds = Inr (st', ds')"
  shows "length (filter (has_speaker s)
                  (updated_entries fs \<lparr>pools = by_speaker, updates_made = 0\<rparr> ds))
           \<le> length (pool_of by_speaker s)
       \<and> length (filter (has_speaker s)
                  (updated_entries fs \<lparr>pools = by_speaker, updates_made = 0\<rparr> ds))
           + length (pool_of (pools st') s) = length (pool_of by_speaker s)"
  using updated_count_exact[OF assms(2), of s] by simp

text \<open>The Guard entries of the example: two files, two assignments.\<close>

theorem assignments_bounded_witness:
  "scan_inventory demo_fs (Path True [''game'', ''voices'']) = Inr demo_pools
   \<and> repair_all demo_fs \<lparr>pools = demo_pools, updates_made = 0\<rparr> demo_catalog
        = Inr (\<lparr>pools = demo_pools(''Guard'' \<mapsto> [], ''Merchant'' \<mapsto> []), updates_made = 3\<rparr>,
               demo_repaired)
   \<and> length (filter (has_speaker ''Guard'')
        (updated_entries demo_fs \<lparr>pools = demo_pools, updates_made = 0\<rparr> demo_catalog)) = 2
   \<and> length (pool_of demo_pools ''Guard'') = 2
   \<and> length (filter (has_speaker ''Guard'')
        (updated_entries demo_fs \<lparr>pools = demo_pools, updates_made = 0\<rparr> demo_catalog))
        \<le> length (pool_of demo_pools ''Guard'')"
proof -
  have h1: "scan_inventory demo_fs (Path True [''game'', ''voices'']) = Inr demo_pools"
    by (rule demo_inventory)
  have h2: "repair_all demo_fs \<lparr>pools = demo_pools, updates_made = 0\<rparr> demo_catalog
        = Inr (\<lparr>pools = demo_pools(''Guard'' \<mapsto> [], ''Merchant'' \<mapsto> []), updates_made = 3\<rparr>,
               demo_repaired)"
    using demo_repair by (simp add: demo_start_def)
  have n: "length (filter (has_speaker ''Guard'')
        (updated_entries demo_fs \<lparr>pools = demo_pools, updates_made = 0\<rparr> demo_catalog)) = 2"
    using demo_updated
    by (simp add: demo_start_def has_speaker_def ready_entry_def newcomer_repaired_def
          newcomer_def)
  have m: "length (pool_of demo_pools ''Guard'') = 2"
    by (simp add: pool_of_def demo_pools_def)
  from assignments_bounded_by_discovered_files[OF h1 h2, of "''Guard''"] h1 h2 n m
  show ?thesis by blast
qed

text \<open>
  C7. No entry is assigned a file of the previews directory, whatever the catalog and
  whatever the previews directory holds.
\<close>

theorem previews_never_assigned:
  assumes "iterdir fs (str_path voices_dir) = Inr its"
    and "slash_free_names its"
    and "scan_inventory fs voices_dir = Inr by_speaker"
  shows "\<forall>e \<in> set (updated_entries fs \<lparr>pools = by_speaker, updates_made = 0\<rparr> ds).
           \<forall>name. new_path_of e
                     \<noteq> Inr (JStr (str_path (child (child voices_dir ''previews'') name)))"
proof (intro ballI allI notI)
  fix e name
  assume e: "e \<in> set (updated_entries fs \<lparr>pools = by_speaker, updates_made = 0\<rparr> ds)"
    and eq: "new_path_of e = Inr (JStr (str_path (child (child voices_dir ''previews'') name)))"
  from scanned_scan_inventory[OF assms(1)] assms(3)
  have sc: "scanned voices_dir its by_speaker" by simp
  from e have "new_path_of e \<in> set (map new_path_of
      (updated_entries fs \<lparr>pools = by_speaker, updates_made = 0\<rparr> ds))"
    by simp
  moreover have "set (map new_path_of
      (updated_entries fs \<lparr>pools = by_speaker, updates_made = 0\<rparr> ds))
      \<subseteq> (\<lambda>p. Inr (JStr p)) ` available by_speaker"
    using new_paths_available[of fs "\<lparr>pools = by_speaker, updates_made = 0\<rparr>" ds] by simp
  ultimately have "str_path (child (child voices_dir ''previews'') name) \<in> available by_speaker"
    using eq by auto
  with scanned_no_previews[OF sc assms(2)] show False by simp
qed

text \<open>The example has a file in previews; the Merchant entry does not get it.\<close>

theorem previews_never_assigned_witness:
  "iterdir demo_fs (str_path (Path True [''game'', ''voices''])) = Inr demo_listing
   \<and> slash_free_names demo_listing
   \<and> scan_inventory demo_fs (Path True [''game'', ''voices'']) = Inr demo_pools
   \<and> JObj newcomer_repaired
        \<in> set (updated_entries demo_fs \<lparr>pools = demo_pools, updates_made = 0\<rparr> demo_catalog)
   \<and> new_path_of (JObj newcomer_repaired)
        \<noteq> Inr (JStr (str_path (child (child (Path True [''game'', ''voices'']) ''previews'')
                                   ''p.mp3'')))"
proof -
  have h1: "iterdir demo_fs (str_path (Path True [''game'', ''voices''])) = Inr demo_listing"
    by (rule demo_iterdir)
  have h2: "slash_free_names demo_listing"
    by (simp add: slash_free_names_def demo_listing_def)
  have h3: "scan_inventory demo_fs (Path True [''game'', ''voices'']) = Inr demo_pools"
    by (rule demo_inventory)
  have e: "JObj newcomer_repaired
        \<in> set (updated_entries demo_fs \<lparr>pools = demo_pools, updates_made = 0\<rparr> demo_catalog)"
    using demo_updated by (simp add: demo_start_def)
  from previews_never_assigned[OF h1 h2 h3, of demo_catalog] e
  have "new_path_of (JObj newcomer_repaired)
        \<noteq> Inr (JStr (str_path (child (child (Path True [''game'', ''voices'']) ''previews'')
                                   ''p.mp3'')))"
    by blast
  with h1 h2 h3 e show ?thesis by blast
qed

text \<open>
  C8. A run writes back as many entries as it read, in the same order, and in each entry
  the keys other than the four the repair assigns to are the same, with the same values,
  in the same order.
\<close>

theorem untouched_fields_and_order_preserved:
  assumes "main fs = Inr fs'" and "read_json fs (catalog_file fs) = Inr (JArr ds)"
  shows "\<exists>ds'. read_json fs' (catalog_file fs) = Inr (JArr ds')
           \<and> length ds' = length ds
           \<and> (\<forall>i<length ds. \<exists>d d'. ds ! i = JObj d \<and> ds' ! i = JObj d'
                 \<and> other_fields d' = other_fields d
                 \<and> (\<forall>k. k \<notin> repaired_fields \<longrightarrow> map_of d' k = map_of d k))"
proof -
  from assms obtain by_speaker st' ds' where
    run: "repair_all fs \<lparr>pools = by_speaker, updates_made = 0\<rparr> ds = Inr (st', ds')" and
    fs': "fs' = fs\<lparr>read_json := (read_json fs)(catalog_file fs := Inr (JArr ds'))\<rparr>"
    by (rule main_Inr_JArr)
  have rel: "list_all2 same_other_fields ds ds'"
    using run by (rule repair_all_frame)
  have "\<exists>d d'. ds ! i = JObj d \<and> ds' ! i = JObj d' \<and> other_fields d' = other_fields d
          \<and> (\<forall>k. k \<notin> repaired_fields \<longrightarrow> map_of d' k = map_of d k)"
    if "i < length ds" for i
  proof -
    from rel that have "same_other_fields (ds ! i) (ds' ! i)"
      by (rule list_all2_nthD)
    then obtain d d' where dd: "ds ! i = JObj d" "ds' ! i = JObj d'"
      "other_fields d' = other_fields d"
      by (auto simp: same_other_fields_def split: json.splits)
    have "map_of d' k = map_of d k" if "k \<notin> repaired_fields" for k
      using dd(3) map_of_other_fields[OF that, of d] map_of_other_fields[OF that, of d']
      by simp
    with dd show ?thesis by blast
  qed
  moreover have "length ds' = length ds"
    using rel by (simp add: list_all2_lengthD)
  moreover have "read_json fs' (catalog_file fs) = Inr (JArr ds')"
    by (simp add: fs')
  ultimately show ?thesis by blast
qed

text \<open>The example: the extra key of the sixth entry is kept.\<close>

theorem untouched_fields_witness:
  "main demo_fs = Inr demo_fs1
   \<and> read_json demo_fs (catalog_file demo_fs) = Inr (JArr demo_catalog)
   \<and> (\<exists>ds'. read_json demo_fs1 (catalog_file demo_fs) = Inr (JArr ds')
           \<and> length ds' = length demo_catalog
           \<and> (\<forall>i<length demo_catalog. \<exists>d d'. demo_catalog ! i = JObj d \<and> ds' ! i = JObj d'
                 \<and> other_fields d' = other_fields d
                 \<and> (\<forall>k. k \<notin> repaired_fields \<longrightarrow> map_of d' k = map_of d k)))
   \<and> other_fields newcomer_repaired = newcomer"
proof -
  have h1: "main demo_fs = Inr demo_fs1" by (rule demo_first_run)
  have h2: "read_json demo_fs (catalog_file demo_fs) = Inr (JArr demo_catalog)"
    by (simp add: catalog_file_def demo_root catalog_path_def) (simp add: demo_fs_def)
  have x: "other_fields newcomer_repaired = newcomer"
    by (simp add: other_fields_def repaired_fields_def newcomer_repaired_def newcomer_def)
  from untouched_fields_and_order_preserved[OF h1 h2] h1 h2 x show ?thesis by blast
qed

text \<open>
  C9. The inventory does not depend on the catalog, so a file that a valid entry already
  names stays in the pool: in the example the fifth entry is left as it is, the sixth is
  repaired, and both name the same file after the run.
\<close>

theorem inventory_ignores_catalog:
  "scan_inventory (fs\<lparr>read_json := r\<rparr>) voices_dir = scan_inventory fs voices_dir
   \<and> scan_inventory demo_fs (voices_dir_of (find_repo_root demo_fs)) = Inr demo_pools
   \<and> catalog_after demo_fs = Inr (JArr demo_repaired)
   \<and> path_exists demo_fs ''/game/voices/Merchant/m.mp3''
   \<and> demo_repaired ! 4 = demo_catalog ! 4
   \<and> demo_repaired ! 5 \<noteq> demo_catalog ! 5
   \<and> updated_entries demo_fs \<lparr>pools = demo_pools, updates_made = 0\<rparr> demo_catalog
        = [demo_repaired ! 0, demo_repaired ! 1, demo_repaired ! 5]
   \<and> new_path_of (demo_repaired ! 4) = Inr (JStr ''/game/voices/Merchant/m.mp3'')
   \<and> new_path_of (demo_repaired ! 5) = Inr (JStr ''/game/voices/Merchant/m.mp3'')"
proof -
  have "scan_inventory (fs\<lparr>read_json := r\<rparr>) voices_dir = scan_inventory fs voices_dir"
    by (simp add: scan_inventory_def)
  moreover have "scan_inventory demo_fs (voices_dir_of (find_repo_root demo_fs)) = Inr demo_pools"
    using demo_inventory by (simp add: demo_root voices_dir_of_def)
  moreover have "path_exists demo_fs ''/game/voices/Merchant/m.mp3''"
    by (simp add: demo_fs_def)
  moreover have "demo_repaired ! 4 = demo_catalog ! 4" "demo_repaired ! 5 \<noteq> demo_catalog ! 5"
    by (simp_all add: demo_repaired_def demo_catalog_def newcomer_repaired_def)
  moreover have "updated_entries demo_fs \<lparr>pools = demo_pools, updates_made = 0\<rparr> demo_catalog
        = [demo_repaired ! 0, demo_repaired ! 1, demo_repaired ! 5]"
    using demo_updated by (simp add: demo_start_def demo_repaired_def)
  moreover have "new_path_of (demo_repaired ! 4) = Inr (JStr ''/game/voices/Merchant/m.mp3'')"
    "new_path_of (demo_repaired ! 5) = Inr (JStr ''/game/voices/Merchant/m.mp3'')"
    by (simp_all add: demo_repaired_def new_path_of_def ready_entry_def newcomer_repaired_def
          newcomer_def)
  ultimately show ?thesis using demo_run by blast
qed

text \<open>
  C10. An entry without an \<^verbatim>\<open>AudioPath\<close> key is treated as one whose audio path is
  the empty string: it is not skipped as valid, and the loop body raises, changes the
  state and assigns exactly as it does for the entry with the empty path added (when
  nothing is assigned the entry stays as it is, without the key).
\<close>

theorem missing_audio_path_defaults_to_empty:
  assumes "map_of d ''AudioPath'' = None"
  shows "already_valid fs (dict_get d ''AudioPath'' (JStr [])) = Inr False
       \<and> repair_entry fs st (JObj d) =
           (case repair_entry fs st (JObj (AList.update ''AudioPath'' (JStr []) d)) of
              Inl e \<Rightarrow> Inl e
            | Inr (st', e') \<Rightarrow>
                Inr (st', if updates_made st' = updates_made st then JObj d else e'))"
proof -
  let ?d0 = "AList.update ''AudioPath'' (JStr []) d"
  have get: "dict_get d ''AudioPath'' (JStr []) = JStr []"
            "dict_get ?d0 ''AudioPath'' (JStr []) = JStr []"
    using assms by (simp_all add: dict_get_def AList.update_conv')
  have nv: "already_valid fs (JStr []) = Inr False"
    by (simp add: already_valid_def)
  have other: "map_of ?d0 ''Speaker'' = map_of d ''Speaker''"
       "map_of ?d0 ''Id'' = map_of d ''Id''" "map_of ?d0 ''Text'' = map_of d ''Text''"
    by (simp_all add: AList.update_conv')
  have same: "assign_audio q ?d0 = assign_audio q d" for q
    by (simp add: assign_audio_def)
  have gi: "py_getitem (JObj ?d0) ''Id'' = py_getitem (JObj d) ''Id''"
          "py_getitem (JObj ?d0) ''Text'' = py_getitem (JObj d) ''Text''"
    by (simp_all add: other)
  have af: "assign_first st ?d0 s files = assign_first st d s files" for s files
    unfolding assign_first_def gi same by (rule refl)
  have r: "repair_entry fs st (JObj d) =
     (case map_of d ''Speaker'' of
        None \<Rightarrow> Inl (KeyError ''Speaker'')
      | Some speaker \<Rightarrow>
          (case lookup_speaker (pools st) speaker of
             Inl e \<Rightarrow> Inl e
           | Inr None \<Rightarrow> Inr (st, JObj d)
           | Inr (Some (s, available_files)) \<Rightarrow>
               (if available_files \<noteq> [] then assign_first st d s available_files
                else Inr (st, JObj d))))"
    by (rule repair_entry_needs_repair) (simp add: get nv)
  have r0: "repair_entry fs st (JObj ?d0) =
     (case map_of d ''Speaker'' of
        None \<Rightarrow> Inl (KeyError ''Speaker'')
      | Some speaker \<Rightarrow>
          (case lookup_speaker (pools st) speaker of
             Inl e \<Rightarrow> Inl e
           | Inr None \<Rightarrow> Inr (st, JObj ?d0)
           | Inr (Some (s, available_files)) \<Rightarrow>
               (if available_files \<noteq> [] then assign_first st d s available_files
                else Inr (st, JObj ?d0))))"
  proof -
    have "already_valid fs (dict_get ?d0 ''AudioPath'' (JStr [])) = Inr False"
      by (simp add: get nv)
    from repair_entry_needs_repair[OF this, of st] show ?thesis
      unfolding other af .
  qed
  have "repair_entry fs st (JObj d) =
           (case repair_entry fs st (JObj ?d0) of
              Inl e \<Rightarrow> Inl e
            | Inr (st', e') \<Rightarrow>
                Inr (st', if updates_made st' = updates_made st then JObj d else e'))"
  proof (cases "map_of d ''Speaker''")
    case None
    then show ?thesis by (simp add: r r0)
  next
    case (Some speaker)
    show ?thesis
    proof (cases "lookup_speaker (pools st) speaker")
      case (Inl err)
      with Some show ?thesis by (simp add: r r0)
    next
      case (Inr found)
      show ?thesis
      proof (cases found)
        case None
        with Some Inr show ?thesis by (simp add: r r0)
      next
        case found: (Some pr)
        obtain s files where pr: "pr = (s, files)" by (cases pr)
        show ?thesis
        proof (cases "files = []")
          case True
          with Some Inr found pr show ?thesis by (simp add: r r0)
        next
          case False
          show ?thesis
          proof (cases "assign_first st d s files")
            case (Inl err)
            with Some Inr found pr False show ?thesis by (simp add: r r0)
          next
            case res: (Inr out)
            obtain st' e' where out: "out = (st', e')" by (cases out)
            from res out have "updates_made st' = updates_made st + 1"
              using assign_first_counter by blast
            with Some Inr found pr False res out show ?thesis by (simp add: r r0)
          qed
        qed
      qed
    qed
  qed
  with get nv show ?thesis by simp
qed

text \<open>The sixth entry of the example.\<close>

theorem missing_audio_path_witness:
  "map_of newcomer ''AudioPath'' = None
   \<and> already_valid demo_fs (dict_get newcomer ''AudioPath'' (JStr [])) = Inr False
   \<and> repair_entry demo_fs demo_start (JObj (AList.update ''AudioPath'' (JStr []) newcomer))
        = Inr (\<lparr>pools = demo_pools(''Merchant'' \<mapsto> []), updates_made = 1\<rparr>,
               JObj newcomer_repaired)
   \<and> repair_entry demo_fs demo_start (JObj newcomer)
        = Inr (\<lparr>pools = demo_pools(''Merchant'' \<mapsto> []), updates_made = 1\<rparr>,
               JObj newcomer_repaired)"
proof -
  have h: "map_of newcomer ''AudioPath'' = None" by (simp add: newcomer_def)
  have e: "repair_entry demo_fs demo_start (JObj (AList.update ''AudioPath'' (JStr []) newcomer))
        = Inr (\<lparr>pools = demo_pools(''Merchant'' \<mapsto> []), updates_made = 1\<rparr>,
               JObj newcomer_repaired)"
    by (simp add: demo_defs run_defs)
  from missing_audio_path_defaults_to_empty[OF h, of demo_fs demo_start] e h
  show ?thesis by (simp add: demo_start_def)
qed

end
